theory Spec2Isabelle
  imports Complex_Main
begin

section \<open>Endpoint catalog (endpoints.ts)\<close>

subsection \<open>Types\<close>

text \<open>
  The six members of the TypeScript union \<open>OscMessageType\<close>. In the source they are
  string literals; \<open>type_name\<close> gives the literal back wherever the code uses the
  value as a string (template literals, \<open>join\<close>).
\<close>

datatype OscMessageType =
    enPPCFaderMessage
  | enPPCRotaryMessage
  | enPPCSwitchMessage
  | enPPCStringMessage
  | enPPCMeterMessage
  | enPPCOtherMessage

fun type_name :: "OscMessageType \<Rightarrow> string" where
  "type_name enPPCFaderMessage = ''enPPCFaderMessage''"
| "type_name enPPCRotaryMessage = ''enPPCRotaryMessage''"
| "type_name enPPCSwitchMessage = ''enPPCSwitchMessage''"
| "type_name enPPCStringMessage = ''enPPCStringMessage''"
| "type_name enPPCMeterMessage = ''enPPCMeterMessage''"
| "type_name enPPCOtherMessage = ''enPPCOtherMessage''"

text \<open>\<open>argumentType: "float" | "integer" | "string" | null\<close>; \<open>null\<close> is \<open>None\<close>.\<close>

datatype ArgumentType = ArgFloat | ArgInteger | ArgString

record EndpointSpec =
  multiPath :: bool
  type :: OscMessageType
  argumentType :: "ArgumentType option"
  description :: string
  isAbsolute :: "bool option"

text \<open>
  \<open>EndpointStore = Record<string, Record<string, EndpointSpec>>\<close>. The two JSON
  tables are not part of the sources, so the merged store that \<open>getAllEndpoints()\<close>
  returns is a parameter \<open>all\<close> of every catalog function. It is kept as an
  association list in the order in which \<open>Object.entries\<close> enumerates it, because
  \<open>searchEndpoints\<close> depends on that order; \<open>map_of\<close> finds its own keys.
  Strings are lists of 8-bit characters; case folding and white space are the
  ASCII ones. Parameters that the source calls \<open>group\<close>, \<open>endpoint\<close> and
  \<open>spec\<close> are written \<open>grp\<close>, \<open>ep\<close> and \<open>sp\<close>, since those names are
  fields of \<open>SearchResult\<close> below.
\<close>

type_synonym EndpointGroup = "(string \<times> EndpointSpec) list"
type_synonym EndpointStore = "(string \<times> EndpointGroup) list"

text \<open>Keys of a JavaScript object are unique.\<close>

definition wf_store :: "EndpointStore \<Rightarrow> bool" where
  "wf_store all =
     (distinct (map fst all) \<and> list_all (\<lambda>ge. distinct (map fst (snd ge))) all)"

subsection \<open>What the host contributes\<close>

text \<open>
  A JavaScript \<open>number\<close>: a finite value, one of the two infinities, or NaN.
  Finite doubles are taken as the real numbers they denote, and the decimal
  literals of the source as the decimals they spell; signed zeros are not told
  apart.
\<close>

datatype number = Finite real | PosInfinity | NegInfinity | NaN

fun Math_min :: "number \<Rightarrow> number \<Rightarrow> number" where
  "Math_min NaN b = NaN"
| "Math_min a NaN = NaN"
| "Math_min NegInfinity b = NegInfinity"
| "Math_min a NegInfinity = NegInfinity"
| "Math_min PosInfinity b = b"
| "Math_min a PosInfinity = a"
| "Math_min (Finite x) (Finite y) = Finite (min x y)"

fun Math_max :: "number \<Rightarrow> number \<Rightarrow> number" where
  "Math_max NaN b = NaN"
| "Math_max a NaN = NaN"
| "Math_max PosInfinity b = PosInfinity"
| "Math_max a PosInfinity = PosInfinity"
| "Math_max NegInfinity b = b"
| "Math_max a NegInfinity = a"
| "Math_max (Finite x) (Finite y) = Finite (max x y)"

text \<open>\<open>Math.round\<close>: the nearest integer, a tie going upwards.\<close>

fun Math_round :: "number \<Rightarrow> number" where
  "Math_round (Finite x) = Finite (of_int \<lfloor>x + 1 / 2\<rfloor>)"
| "Math_round PosInfinity = PosInfinity"
| "Math_round NegInfinity = NegInfinity"
| "Math_round NaN = NaN"

text \<open>
  The store and its groups are plain JavaScript objects, so \<open>all[group]\<close> and
  \<open>groupData[endpoint]\<close> find an own key first and then whatever the object
  inherits from \<open>Object.prototype\<close>. What is inherited, and how a number is
  printed, belongs to the runtime and not to the sources; it is the parameter
  \<open>h\<close> of the functions below. Of a value that the runtime supplies only this
  matters: whether reading it throws, whether it is \<open>null\<close> or \<open>undefined\<close>,
  and otherwise whether it is truthy. Such a value is no endpoint specification:
  its \<open>type\<close>, \<open>multiPath\<close> and \<open>argumentType\<close> are \<open>undefined\<close>.
\<close>

datatype host_value = Absent | Falsy | Truthy | Throwing

text \<open>
  \<open>inherited h name\<close> is what \<open>o[name]\<close> yields on a plain object \<open>o\<close> that has
  no own key \<open>name\<close>; \<open>inherited_member h g e\<close> is what \<open>o[g][e]\<close> yields there;
  \<open>number_toString h n\<close> is the text of \<open>n\<close> in a template literal and under
  \<open>String\<close>.
\<close>

record host =
  inherited :: "string \<Rightarrow> host_value"
  inherited_member :: "string \<Rightarrow> string \<Rightarrow> host_value"
  number_toString :: "number \<Rightarrow> string"

text \<open>
  The errors: the five \<open>throw\<close> statements of the client, and the \<open>TypeError\<close> of
  the runtime when reading an inherited property throws.
\<close>

datatype error =
    NotConnected
  | InvalidEndpoint string string
  | ReadOnly string
  | PathBuildFailure string string
  | TypeMismatch ArgumentType
  | TypeError

subsection \<open>getEndpointInfo and buildOscPath\<close>

text \<open>
  What \<open>getEndpointInfo\<close> returns: a specification of the store, \<open>null\<close>, or a
  value of the runtime that is neither (\<open>Foreign True\<close> when it is truthy).
\<close>

datatype endpoint_info = Spec EndpointSpec | Foreign bool | Null

fun from_host :: "host_value \<Rightarrow> error + endpoint_info" where
  "from_host Absent = Inr Null"
| "from_host Falsy = Inr (Foreign False)"
| "from_host Truthy = Inr (Foreign True)"
| "from_host Throwing = Inl TypeError"

text \<open>\<open>all[group]?.[endpoint] ?? null\<close>\<close>

definition getEndpointInfo ::
  "host \<Rightarrow> EndpointStore \<Rightarrow> string \<Rightarrow> string \<Rightarrow> error + endpoint_info" where
  "getEndpointInfo h all grp ep =
     (case map_of all grp of
        Some groupData \<Rightarrow>
          (case map_of groupData ep of
             Some sp \<Rightarrow> Inr (Spec sp)
           | None \<Rightarrow> from_host (inherited h ep))
      | None \<Rightarrow>
          (case inherited h grp of
             Absent \<Rightarrow> Inr Null
           | Throwing \<Rightarrow> Inl TypeError
           | Falsy \<Rightarrow> from_host (inherited_member h grp ep)
           | Truthy \<Rightarrow> from_host (inherited_member h grp ep)))"

definition base_path :: "EndpointSpec \<Rightarrow> string \<Rightarrow> string \<Rightarrow> string" where
  "base_path sp grp ep =
     ''/'' @ type_name (type sp) @ ''/'' @ grp @ ''/'' @ ep"

text \<open>
  \<open>if (!spec) return null\<close> takes \<open>null\<close> and every falsy value. For a truthy
  value that is no specification the template literal prints \<open>undefined\<close> for
  \<open>spec.type\<close>, and \<open>spec.multiPath\<close> is falsy. The index is a \<open>number\<close>.
\<close>

definition buildOscPath ::
  "host \<Rightarrow> EndpointStore \<Rightarrow> string \<Rightarrow> string \<Rightarrow> number option \<Rightarrow> error + string option" where
  "buildOscPath h all grp ep index =
     (case getEndpointInfo h all grp ep of
        Inl err \<Rightarrow> Inl err
      | Inr Null \<Rightarrow> Inr None
      | Inr (Foreign truthy) \<Rightarrow>
          if truthy then Inr (Some (''/undefined/'' @ grp @ ''/'' @ ep)) else Inr None
      | Inr (Spec sp) \<Rightarrow>
          (let path = base_path sp grp ep in
           case index of
             Some i \<Rightarrow>
               if multiPath sp then Inr (Some (path @ ''/'' @ number_toString h i))
               else Inr (Some path)
           | None \<Rightarrow> Inr (Some path)))"

subsection \<open>searchEndpoints\<close>

text \<open>\<open>String.prototype.toLowerCase\<close> on ASCII text.\<close>

definition lower_char :: "char \<Rightarrow> char" where
  "lower_char c =
     (case map_of (zip ''ABCDEFGHIJKLMNOPQRSTUVWXYZ'' ''abcdefghijklmnopqrstuvwxyz'') c of
        Some l \<Rightarrow> l
      | None \<Rightarrow> c)"

definition toLowerCase :: "string \<Rightarrow> string" where
  "toLowerCase s = map lower_char s"

text \<open>The ASCII characters that the regular expression class \<open>\s\<close> matches.\<close>

definition is_space :: "char \<Rightarrow> bool" where
  "is_space c =
     (c = CHR '' '' \<or> c = CHR 0x09 \<or> c = CHR 0x0A \<or> c = CHR 0x0B \<or> c = CHR 0x0C \<or> c = CHR 0x0D)"

text \<open>
  \<open>s.split(/\s+/)\<close>: the pieces between the maximal runs of white space. A run at
  the start or at the end of \<open>s\<close> leaves an empty piece there, and the empty string
  splits into one empty piece.
\<close>

function split_ws :: "string \<Rightarrow> string list" where
  "split_ws s =
     takeWhile (\<lambda>c. \<not> is_space c) s #
       (case dropWhile (\<lambda>c. \<not> is_space c) s of
          [] \<Rightarrow> []
        | c # cs \<Rightarrow> split_ws (dropWhile is_space cs))"
  by pat_completeness auto
termination
proof (relation "measure length")
  show "wf (measure length)" by simp
next
  fix s :: string and c cs
  assume d: "dropWhile (\<lambda>c. \<not> is_space c) s = c # cs"
  have "length (dropWhile is_space cs) \<le> length cs"
    by (rule length_dropWhile_le)
  also have "length cs < length (dropWhile (\<lambda>c. \<not> is_space c) s)"
    by (simp add: d)
  also have "\<dots> \<le> length s"
    by (rule length_dropWhile_le)
  finally show "(dropWhile is_space cs, s) \<in> measure length"
    by simp
qed

declare split_ws.simps [simp del]

text \<open>\<open>s.includes(t)\<close>: \<open>t\<close> occurs in \<open>s\<close> as a contiguous piece.\<close>

fun starts_with :: "string \<Rightarrow> string \<Rightarrow> bool" where
  "starts_with s [] = True"
| "starts_with [] (t # ts) = False"
| "starts_with (c # cs) (t # ts) = (c = t \<and> starts_with cs ts)"

fun str_includes :: "string \<Rightarrow> string \<Rightarrow> bool" where
  "str_includes [] t = (t = [])"
| "str_includes (c # cs) t = (starts_with (c # cs) t \<or> str_includes cs t)"

record SearchOptions =
  opt_group :: "string option"
  opt_type :: "OscMessageType option"

definition no_options :: SearchOptions where
  "no_options = \<lparr>opt_group = None, opt_type = None\<rparr>"

record SearchResult =
  group :: string
  endpoint :: string
  spec :: EndpointSpec
  oscPath :: string

text \<open>\<open>[groupName, endpointName, spec.description, spec.type].join(" ").toLowerCase()\<close>\<close>

definition searchable :: "string \<Rightarrow> string \<Rightarrow> EndpointSpec \<Rightarrow> string" where
  "searchable groupName endpointName sp =
     toLowerCase (groupName @ '' '' @ endpointName @ '' '' @ description sp @ '' '' @
                  type_name (type sp))"

definition mk_result :: "string \<times> string \<times> EndpointSpec \<Rightarrow> SearchResult" where
  "mk_result t =
     (case t of (groupName, endpointName, sp) \<Rightarrow>
        \<lparr>group = groupName, endpoint = endpointName, spec = sp,
         oscPath = ''/'' @ type_name (type sp) @ ''/'' @ groupName @ ''/'' @ endpointName\<rparr>)"

text \<open>
  The two \<open>continue\<close> tests. A string is falsy exactly when it is empty, so an
  empty \<open>options.group\<close> filters nothing; the type names are all non-empty.
\<close>

definition skip_group :: "SearchOptions \<Rightarrow> string \<Rightarrow> bool" where
  "skip_group options groupName =
     (case opt_group options of
        None \<Rightarrow> False
      | Some g \<Rightarrow> g \<noteq> [] \<and> groupName \<noteq> g)"

definition skip_type :: "SearchOptions \<Rightarrow> EndpointSpec \<Rightarrow> bool" where
  "skip_type options sp =
     (case opt_type options of
        None \<Rightarrow> False
      | Some t \<Rightarrow> type sp \<noteq> t)"

text \<open>The inner loop over \<open>Object.entries(endpoints)\<close>; \<open>results\<close> is pushed to.\<close>

fun search_group ::
  "SearchOptions \<Rightarrow> string list \<Rightarrow> string \<Rightarrow> EndpointGroup \<Rightarrow> SearchResult list \<Rightarrow> SearchResult list"
where
  "search_group options terms groupName [] results = results"
| "search_group options terms groupName ((endpointName, sp) # rest) results =
     (if skip_type options sp then search_group options terms groupName rest results
      else if list_all (\<lambda>term. str_includes (searchable groupName endpointName sp) term) terms
      then search_group options terms groupName rest
             (results @ [mk_result (groupName, endpointName, sp)])
      else search_group options terms groupName rest results)"

text \<open>The outer loop over \<open>Object.entries(all)\<close>.\<close>

fun search_all ::
  "SearchOptions \<Rightarrow> string list \<Rightarrow> EndpointStore \<Rightarrow> SearchResult list \<Rightarrow> SearchResult list"
where
  "search_all options terms [] results = results"
| "search_all options terms ((groupName, endpoints) # rest) results =
     (if skip_group options groupName then search_all options terms rest results
      else search_all options terms rest
             (search_group options terms groupName endpoints results))"

definition searchEndpoints :: "EndpointStore \<Rightarrow> string \<Rightarrow> SearchOptions \<Rightarrow> SearchResult list" where
  "searchEndpoints all query options =
     search_all options (split_ws (toLowerCase query)) all []"

text \<open>The (group, endpoint, spec) triples of a store, in iteration order.\<close>

definition triples :: "EndpointStore \<Rightarrow> (string \<times> string \<times> EndpointSpec) list" where
  "triples all =
     concat (map (\<lambda>ge. map (\<lambda>es. (fst ge, fst es, snd es)) (snd ge)) all)"

subsection \<open>The search as a filter\<close>

text \<open>
  The triples that the two loops keep, written with the tests of the source: the
  group test, the type test, and every element of \<open>terms\<close> found in the
  searchable string.
\<close>

definition keep :: "SearchOptions \<Rightarrow> string list \<Rightarrow> string \<times> string \<times> EndpointSpec \<Rightarrow> bool" where
  "keep options terms t =
     (case t of (g, e, sp) \<Rightarrow>
        \<not> skip_group options g \<and> \<not> skip_type options sp \<and>
        list_all (\<lambda>term. str_includes (searchable g e sp) term) terms)"

text \<open>
  The terms of a query in the words of the specification: the maximal runs of
  characters other than white space, taken from the lower-cased query. Unlike
  \<open>split_ws\<close> this never yields an empty term.
\<close>

function words_of :: "string \<Rightarrow> string list" where
  "words_of s =
     (case dropWhile is_space s of
        [] \<Rightarrow> []
      | c # cs \<Rightarrow> (c # takeWhile (\<lambda>c. \<not> is_space c) cs) #
                   words_of (dropWhile (\<lambda>c. \<not> is_space c) cs))"
  by pat_completeness auto
termination
proof (relation "measure length")
  show "wf (measure length)" by simp
next
  fix s :: string and c cs
  assume d: "dropWhile is_space s = c # cs"
  have "length (dropWhile (\<lambda>c. \<not> is_space c) cs) \<le> length cs"
    by (rule length_dropWhile_le)
  also have "length cs < length (dropWhile is_space s)"
    by (simp add: d)
  also have "\<dots> \<le> length s"
    by (rule length_dropWhile_le)
  finally show "(dropWhile (\<lambda>c. \<not> is_space c) cs, s) \<in> measure length"
    by simp
qed

declare words_of.simps [simp del]

definition spec_terms :: "string \<Rightarrow> string list" where
  "spec_terms query = words_of (toLowerCase query)"

text \<open>
  The filters as the code applies them: a group filter that is supplied and not
  empty must equal the group name, a type filter that is supplied must equal the
  message type.
\<close>

definition filters_pass :: "SearchOptions \<Rightarrow> string \<Rightarrow> EndpointSpec \<Rightarrow> bool" where
  "filters_pass options g sp =
     ((case opt_group options of None \<Rightarrow> True | Some g' \<Rightarrow> g' = [] \<or> g = g') \<and>
      (case opt_type options of None \<Rightarrow> True | Some t \<Rightarrow> type sp = t))"

text \<open>The four lower-cased fields, joined by single spaces.\<close>

definition joined_fields :: "string \<Rightarrow> string \<Rightarrow> EndpointSpec \<Rightarrow> string" where
  "joined_fields g e sp =
     toLowerCase g @ '' '' @ toLowerCase e @ '' '' @ toLowerCase (description sp) @ '' '' @
     toLowerCase (type_name (type sp))"

definition matches :: "SearchOptions \<Rightarrow> string \<Rightarrow> string \<times> string \<times> EndpointSpec \<Rightarrow> bool" where
  "matches options query t =
     (case t of (g, e, sp) \<Rightarrow>
        filters_pass options g sp \<and>
        list_all (\<lambda>term. str_includes (joined_fields g e sp) term) (spec_terms query))"

text \<open>
  The matching rule read literally from the specification: exact-match filters
  whenever one is supplied, and the four fields concatenated with nothing between
  them.
\<close>

definition exact_filters :: "SearchOptions \<Rightarrow> string \<Rightarrow> EndpointSpec \<Rightarrow> bool" where
  "exact_filters options g sp =
     ((case opt_group options of None \<Rightarrow> True | Some g' \<Rightarrow> g = g') \<and>
      (case opt_type options of None \<Rightarrow> True | Some t \<Rightarrow> type sp = t))"

definition concatenation :: "string \<Rightarrow> string \<Rightarrow> EndpointSpec \<Rightarrow> string" where
  "concatenation g e sp =
     toLowerCase (g @ e @ description sp @ type_name (type sp))"

definition claimed_matches :: "SearchOptions \<Rightarrow> string \<Rightarrow> string \<times> string \<times> EndpointSpec \<Rightarrow> bool" where
  "claimed_matches options query t =
     (case t of (g, e, sp) \<Rightarrow>
        exact_filters options g sp \<and>
        list_all (\<lambda>term. str_includes (concatenation g e sp) term) (spec_terms query))"

text \<open>A term occurs, case folded, in one of the four fields of a triple.\<close>

definition in_some_field :: "string \<Rightarrow> string \<times> string \<times> EndpointSpec \<Rightarrow> bool" where
  "in_some_field term t =
     (case t of (g, e, sp) \<Rightarrow>
        str_includes (toLowerCase g) term \<or> str_includes (toLowerCase e) term \<or>
        str_includes (toLowerCase (description sp)) term \<or>
        str_includes (toLowerCase (type_name (type sp))) term)"

text \<open>A small store for concrete evaluation, shaped like the two JSON tables.\<close>

definition demo_store :: EndpointStore where
  "demo_store =
     [(''VirtualMicInputs'',
       [(''enFader'',
         \<lparr>multiPath = True, type = enPPCFaderMessage, argumentType = Some ArgFloat,
          description = ''Fader level'', isAbsolute = None\<rparr>),
        (''enMute'',
         \<lparr>multiPath = True, type = enPPCSwitchMessage, argumentType = Some ArgInteger,
          description = ''Mute'', isAbsolute = Some True\<rparr>),
        (''enPan'',
         \<lparr>multiPath = True, type = enPPCRotaryMessage, argumentType = Some ArgFloat,
          description = ''Pan'', isAbsolute = None\<rparr>)]),
      (''Globals'',
       [(''enRebootConsole'',
         \<lparr>multiPath = False, type = enPPCOtherMessage, argumentType = Some ArgInteger,
          description = ''Reboot'', isAbsolute = None\<rparr>),
        (''enMeter'',
         \<lparr>multiPath = False, type = enPPCMeterMessage, argumentType = None,
          description = ''(unknown)'', isAbsolute = None\<rparr>),
        (''enName'',
         \<lparr>multiPath = False, type = enPPCStringMessage, argumentType = Some ArgString,
          description = ''Console name'', isAbsolute = None\<rparr>)])]"

section \<open>Console client (osc-client.ts)\<close>

subsection \<open>Values and messages\<close>

text \<open>\<open>value: number | string\<close>; \<open>typeof value\<close> tells the two apart.\<close>

datatype js_value = NumberV number | StringV string

text \<open>\<open>String(value)\<close>, with the host's printing of numbers.\<close>

fun String_of :: "(number \<Rightarrow> string) \<Rightarrow> js_value \<Rightarrow> string" where
  "String_of toStr (StringV s) = s"
| "String_of toStr (NumberV n) = toStr n"

text \<open>The typed argument \<open>{type: "f" | "i" | "s", value}\<close> appended to a message.\<close>

datatype osc_arg = ArgF number | ArgI number | ArgS string

record Message =
  msg_address :: string
  msg_args :: "osc_arg list"

record ConnectionConfig =
  ip :: string
  port :: nat
  listenPort :: nat

text \<open>The arguments of an inbound message are \<open>unknown[]\<close>: lists over any type.\<close>

record 'a OscResponse =
  address :: string
  args :: "'a list"
  timestamp :: int

text \<open>
  \<open>new Client(ip, port)\<close> is the pair of its arguments, \<open>new Server(listenPort,
  "0.0.0.0")\<close> likewise. An inbound message \<open>[address, ...args]\<close> is the pair of
  its address and its arguments, together with the value of \<open>Date.now()\<close> when
  the listener's callback runs.
\<close>

type_synonym Client = "string \<times> nat"
type_synonym Server = "nat \<times> string"
type_synonym 'a inbound = "int \<times> string \<times> 'a list"

subsection \<open>The client and the network\<close>

text \<open>
  The four private fields of \<open>MidasOscClient\<close>, followed by what the calls into
  the library do to the world outside: the send sockets and the listeners that
  are open, and the messages sent so far. The library is not in the sources; its
  constructors, \<open>close\<close> and \<open>send\<close> are taken to succeed. Calls run one after the
  other, as the specification requires of the caller.
\<close>

record 'a MidasOscClient =
  client :: "Client option"
  listener :: "Server option"
  config :: "ConnectionConfig option"
  responseBuffer :: "string \<rightharpoonup> 'a OscResponse"
  open_clients :: "Client list"
  open_listeners :: "Server list"
  sent :: "Message list"

definition midasClient :: "'a MidasOscClient" where
  "midasClient =
     \<lparr>client = None, listener = None, config = None, responseBuffer = Map.empty,
      open_clients = [], open_listeners = [], sent = []\<rparr>"

definition isConnected :: "'a MidasOscClient \<Rightarrow> bool" where
  "isConnected this = (client this \<noteq> None)"

definition connectionInfo :: "'a MidasOscClient \<Rightarrow> ConnectionConfig option" where
  "connectionInfo this = config this"

definition disconnect :: "'a MidasOscClient \<Rightarrow> 'a MidasOscClient" where
  "disconnect this =
     (let s1 = (case client this of
                  Some c \<Rightarrow> this\<lparr>open_clients := remove1 c (open_clients this), client := None\<rparr>
                | None \<Rightarrow> this);
          s2 = (case listener s1 of
                  Some l \<Rightarrow> s1\<lparr>open_listeners := remove1 l (open_listeners s1), listener := None\<rparr>
                | None \<Rightarrow> s1)
      in s2\<lparr>config := None, responseBuffer := Map.empty\<rparr>)"

text \<open>The defaults of \<open>connect\<close>: \<open>port = 10023\<close>, \<open>listenPort = 10024\<close>.\<close>

definition connect ::
  "'a MidasOscClient \<Rightarrow> string \<Rightarrow> nat option \<Rightarrow> nat option \<Rightarrow> 'a MidasOscClient" where
  "connect this ip_arg port_arg listenPort_arg =
     (let p = (case port_arg of Some p \<Rightarrow> p | None \<Rightarrow> 10023);
          lp = (case listenPort_arg of Some lp \<Rightarrow> lp | None \<Rightarrow> 10024);
          s1 = (if client this \<noteq> None then disconnect this else this);
          s2 = s1\<lparr>config := Some \<lparr>ip = ip_arg, port = p, listenPort = lp\<rparr>\<rparr>;
          s3 = s2\<lparr>client := Some (ip_arg, p), open_clients := open_clients s2 @ [(ip_arg, p)]\<rparr>
      in s3\<lparr>listener := Some (lp, ''0.0.0.0''),
            open_listeners := open_listeners s3 @ [(lp, ''0.0.0.0'')]\<rparr>)"

text \<open>
  The callback registered on the listener, and its delivery: a message reaches
  the callback only while a listener is open.
\<close>

definition on_message :: "'a MidasOscClient \<Rightarrow> 'a inbound \<Rightarrow> 'a MidasOscClient" where
  "on_message this m =
     (case m of (now, addr, as) \<Rightarrow>
        this\<lparr>responseBuffer :=
               (responseBuffer this)(addr \<mapsto> \<lparr>address = addr, args = as, timestamp = now\<rparr>)\<rparr>)"

definition receive :: "'a MidasOscClient \<Rightarrow> 'a inbound \<Rightarrow> 'a MidasOscClient" where
  "receive this m = (if listener this = None then this else on_message this m)"

definition deliver :: "'a inbound list \<Rightarrow> 'a MidasOscClient \<Rightarrow> 'a MidasOscClient" where
  "deliver ms this = foldl receive this ms"

definition DANGEROUS_ENDPOINTS :: "string list" where
  "DANGEROUS_ENDPOINTS = [''enRebootConsole'', ''enResetGlobalsToDefault'']"

definition isDangerous :: "'a MidasOscClient \<Rightarrow> string \<Rightarrow> bool" where
  "isDangerous this ep = (ep \<in> set DANGEROUS_ENDPOINTS)"

subsection \<open>getValue\<close>

text \<open>
  What happens around one call of \<open>getValue\<close>: the messages that arrive while the
  send is awaited, the clock when the deadline is computed, and then one entry
  for each turn of the loop: the clock at the loop test, the clock at the
  freshness test, and the messages that arrive during the 50 ms sleep. The list
  is finite; a call that is still waiting at its end has not returned.
\<close>

record 'a tick =
  t_test :: int
  t_check :: int
  arrivals :: "'a inbound list"

record 'a env =
  send_arrivals :: "'a inbound list"
  t_start :: int
  ticks :: "'a tick list"

fun poll ::
  "string \<Rightarrow> int \<Rightarrow> int \<Rightarrow> 'a MidasOscClient \<Rightarrow> 'a tick list \<Rightarrow>
   'a OscResponse option option \<times> 'a MidasOscClient"
where
  "poll path timeoutMs deadline this [] = (None, this)"
| "poll path timeoutMs deadline this (tk # tks) =
     (if t_test tk < deadline then
        (case responseBuffer this path of
           Some response \<Rightarrow>
             if timestamp response > t_check tk - timeoutMs then (Some (Some response), this)
             else poll path timeoutMs deadline (deliver (arrivals tk) this) tks
         | None \<Rightarrow> poll path timeoutMs deadline (deliver (arrivals tk) this) tks)
      else (Some None, this))"

text \<open>
  The result is \<open>None\<close> while the call has not returned, \<open>Some (Inl e)\<close> when it
  throws, \<open>Some (Inr r)\<close> when it returns \<open>r\<close> (\<open>null\<close> is \<open>None\<close>).
\<close>

definition getValue ::
  "host \<Rightarrow> EndpointStore \<Rightarrow> 'a MidasOscClient \<Rightarrow> string \<Rightarrow> string \<Rightarrow> number option \<Rightarrow>
   int option \<Rightarrow> 'a env \<Rightarrow> (error + 'a OscResponse option) option \<times> 'a MidasOscClient"
where
  "getValue h all this grp ep index timeout_arg e =
     (let timeoutMs = (case timeout_arg of Some t \<Rightarrow> t | None \<Rightarrow> 2000) in
      case client this of
        None \<Rightarrow> (Some (Inl NotConnected), this)
      | Some c \<Rightarrow>
          (case buildOscPath h all grp ep index of
             Inl err \<Rightarrow> (Some (Inl err), this)
           | Inr None \<Rightarrow> (Some (Inl (InvalidEndpoint grp ep)), this)
           | Inr (Some path) \<Rightarrow>
               (let s1 = this\<lparr>responseBuffer := (responseBuffer this)(path := None)\<rparr>;
                    s2 = s1\<lparr>sent := sent s1 @ [\<lparr>msg_address = path, msg_args = []\<rparr>]\<rparr>;
                    s3 = deliver (send_arrivals e) s2;
                    deadline = t_start e + timeoutMs
                in case poll path timeoutMs deadline s3 (ticks e) of
                     (r, s4) \<Rightarrow> (map_option Inr r, s4))))"

subsection \<open>setValue\<close>

definition send_msg :: "'a MidasOscClient \<Rightarrow> Message \<Rightarrow> 'a MidasOscClient" where
  "send_msg this msg = this\<lparr>sent := sent this @ [msg]\<rparr>"

text \<open>
  \<open>if (!spec)\<close> throws for \<open>null\<close> and for a falsy value. A truthy value that is
  no specification has \<open>argumentType\<close> \<open>undefined\<close>: that is not \<open>null\<close>, so the
  read-only test passes, no \<open>case\<close> of the \<open>switch\<close> applies, and the message goes
  out without an argument.
\<close>

definition setValue ::
  "host \<Rightarrow> EndpointStore \<Rightarrow> 'a MidasOscClient \<Rightarrow> string \<Rightarrow> string \<Rightarrow> js_value \<Rightarrow>
   number option \<Rightarrow> error + 'a MidasOscClient"
where
  "setValue h all this grp ep val index =
     (case client this of
        None \<Rightarrow> Inl NotConnected
      | Some c \<Rightarrow>
     (case getEndpointInfo h all grp ep of
        Inl err \<Rightarrow> Inl err
      | Inr Null \<Rightarrow> Inl (InvalidEndpoint grp ep)
      | Inr (Foreign truthy) \<Rightarrow>
          if \<not> truthy then Inl (InvalidEndpoint grp ep)
          else (case buildOscPath h all grp ep index of
                  Inl err \<Rightarrow> Inl err
                | Inr None \<Rightarrow> Inl (PathBuildFailure grp ep)
                | Inr (Some path) \<Rightarrow>
                    Inr (send_msg this \<lparr>msg_address = path, msg_args = []\<rparr>))
      | Inr (Spec sp) \<Rightarrow>
     (case argumentType sp of
        None \<Rightarrow> Inl (ReadOnly ep)
      | Some argType \<Rightarrow>
     (case buildOscPath h all grp ep index of
        Inl err \<Rightarrow> Inl err
      | Inr None \<Rightarrow> Inl (PathBuildFailure grp ep)
      | Inr (Some path) \<Rightarrow>
     (case argType of
        ArgFloat \<Rightarrow>
          (case val of
             StringV s \<Rightarrow> Inl (TypeMismatch ArgFloat)
           | NumberV v \<Rightarrow>
               Inr (send_msg this
                 \<lparr>msg_address = path,
                  msg_args =
                    [ArgF (if type sp = enPPCFaderMessage
                           then Math_max (Finite (1 / 10000000))
                                  (Math_min (Finite (9999999 / 10000000)) v)
                           else Math_max (Finite 0) (Math_min (Finite 1) v))]\<rparr>))
      | ArgInteger \<Rightarrow>
          (case val of
             StringV s \<Rightarrow> Inl (TypeMismatch ArgInteger)
           | NumberV v \<Rightarrow>
               Inr (send_msg this \<lparr>msg_address = path, msg_args = [ArgI (Math_round v)]\<rparr>))
      | ArgString \<Rightarrow>
          Inr (send_msg this
                 \<lparr>msg_address = path,
                  msg_args = [ArgS (String_of (number_toString h) val)]\<rparr>))))))"

subsection \<open>Sequences of calls\<close>

datatype 'a call =
    Connect string "nat option" "nat option"
  | Disconnect
  | GetValue string string "number option" "int option" "'a env"
  | SetValue string string js_value "number option"
  | Receive "'a inbound"

fun exec ::
  "host \<Rightarrow> EndpointStore \<Rightarrow> 'a MidasOscClient \<Rightarrow> 'a call \<Rightarrow> 'a MidasOscClient"
where
  "exec h all this (Connect i p lp) = connect this i p lp"
| "exec h all this Disconnect = disconnect this"
| "exec h all this (GetValue grp ep index t e) = snd (getValue h all this grp ep index t e)"
| "exec h all this (SetValue grp ep val index) =
     (case setValue h all this grp ep val index of Inl err \<Rightarrow> this | Inr s \<Rightarrow> s)"
| "exec h all this (Receive m) = receive this m"

definition run :: "host \<Rightarrow> EndpointStore \<Rightarrow> 'a call list \<Rightarrow> 'a MidasOscClient" where
  "run h all calls = foldl (exec h all) midasClient calls"

subsection \<open>A host for concrete evaluation\<close>

text \<open>
  The names that ECMAScript puts on \<open>Object.prototype\<close>; every one of them is a
  function or an object, so truthy. The example host knows these names, on plain
  objects and on the inherited values themselves, and prints the integers below
  \<open>10^21\<close> in decimal, as every host does; it is not meant for anything else.
\<close>

definition Object_prototype_names :: "string list" where
  "Object_prototype_names =
     [''constructor'', ''hasOwnProperty'', ''isPrototypeOf'', ''propertyIsEnumerable'',
      ''toLocaleString'', ''toString'', ''valueOf'', ''__proto__'', ''__defineGetter__'',
      ''__defineSetter__'', ''__lookupGetter__'', ''__lookupSetter__'']"

definition digit_char :: "nat \<Rightarrow> char" where
  "digit_char d = ''0123456789'' ! d"

fun decimal :: "nat \<Rightarrow> string" where
  "decimal n =
     (if n < 10 then [digit_char n]
      else decimal (n div 10) @ [digit_char (n mod 10)])"

declare decimal.simps [simp del]

definition print_integer :: "number \<Rightarrow> string" where
  "print_integer n =
     (case n of
        Finite x \<Rightarrow>
          if x = of_int \<lfloor>x\<rfloor> \<and> \<bar>x\<bar> < 10 ^ 21
          then (if x < 0 then ''-'' else []) @ decimal (nat \<bar>\<lfloor>x\<rfloor>\<bar>)
          else []
      | PosInfinity \<Rightarrow> ''Infinity''
      | NegInfinity \<Rightarrow> ''-Infinity''
      | NaN \<Rightarrow> ''NaN'')"

definition demo_host :: host where
  "demo_host =
     \<lparr>inherited = (\<lambda>name. if name \<in> set Object_prototype_names then Truthy else Absent),
      inherited_member =
        (\<lambda>g e. if e \<in> set Object_prototype_names \<and> (g, e) \<noteq> (''__proto__'', ''__proto__'')
               then Truthy else Absent),
      number_toString = print_integer\<rparr>"

subsection \<open>Invariants of the client\<close>

text \<open>The three handles are all present or all absent.\<close>

definition consistent :: "'a MidasOscClient \<Rightarrow> bool" where
  "consistent this =
     ((client this = None \<and> listener this = None \<and> config this = None) \<or>
      (client this \<noteq> None \<and> listener this \<noteq> None \<and> config this \<noteq> None))"

text \<open>
  What every sequence of calls maintains: a disconnected client holds nothing,
  has an empty buffer and no socket open; a connected client holds the
  configuration of its two handles, and these are the only sockets open.
\<close>

definition session_inv :: "'a MidasOscClient \<Rightarrow> bool" where
  "session_inv this =
     (case client this of
        None \<Rightarrow>
          listener this = None \<and> config this = None \<and> responseBuffer this = Map.empty \<and>
          open_clients this = [] \<and> open_listeners this = []
      | Some c \<Rightarrow>
          (case listener this of
             None \<Rightarrow> False
           | Some l \<Rightarrow>
               config this = Some \<lparr>ip = fst c, port = snd c, listenPort = fst l\<rparr> \<and>
               open_clients this = [c] \<and> open_listeners this = [l]))"

subsection \<open>What the specification expects of setValue and getValue\<close>

text \<open>The pair of a group and an endpoint as the catalog has it, or not.\<close>

definition in_catalog :: "EndpointStore \<Rightarrow> string \<Rightarrow> string \<Rightarrow> EndpointSpec option" where
  "in_catalog all grp ep =
     (case map_of all grp of None \<Rightarrow> None | Some groupData \<Rightarrow> map_of groupData ep)"

text \<open>
  The failure that the specification assigns to a \<open>setValue\<close> call, in the order
  in which it lists them: not connected, endpoint not in the catalog, read-only
  endpoint, value of the wrong kind. A string endpoint takes any value.
\<close>

definition expected_failure ::
  "EndpointStore \<Rightarrow> 'a MidasOscClient \<Rightarrow> string \<Rightarrow> string \<Rightarrow> js_value \<Rightarrow> error option" where
  "expected_failure all this grp ep val =
     (if \<not> isConnected this then Some NotConnected
      else case in_catalog all grp ep of
             None \<Rightarrow> Some (InvalidEndpoint grp ep)
           | Some sp \<Rightarrow>
               (case argumentType sp of
                  None \<Rightarrow> Some (ReadOnly ep)
                | Some ArgString \<Rightarrow> None
                | Some ArgFloat \<Rightarrow>
                    (case val of StringV s \<Rightarrow> Some (TypeMismatch ArgFloat) | NumberV n \<Rightarrow> None)
                | Some ArgInteger \<Rightarrow>
                    (case val of StringV s \<Rightarrow> Some (TypeMismatch ArgInteger) | NumberV n \<Rightarrow> None)))"

text \<open>Clamping a real number to the interval from \<open>lo\<close> to \<open>hi\<close>.\<close>

definition clamp :: "real \<Rightarrow> real \<Rightarrow> real \<Rightarrow> real" where
  "clamp lo hi x = (if x < lo then lo else if hi < x then hi else x)"



section \<open>Properties of the catalog\<close>

subsection \<open>Substrings and terms\<close>

lemma starts_with_iff: "starts_with s t \<longleftrightarrow> (\<exists>r. s = t @ r)"
  by (induction s t rule: starts_with.induct) auto

lemma str_includes_Nil [simp]: "str_includes s []"
  by (induction s) auto

text \<open>\<open>str_includes\<close> is the plain substring relation.\<close>

lemma str_includes_iff: "str_includes s t \<longleftrightarrow> (\<exists>l r. s = l @ t @ r)"
proof (induction s)
  case Nil
  show ?case by auto
next
  case (Cons c cs)
  show ?case
  proof
    assume "str_includes (c # cs) t"
    then consider "starts_with (c # cs) t" | "str_includes cs t" by auto
    then show "\<exists>l r. c # cs = l @ t @ r"
    proof cases
      case 1
      then obtain r where "c # cs = t @ r" by (auto simp: starts_with_iff)
      then have "c # cs = [] @ t @ r" by simp
      then show ?thesis by blast
    next
      case 2
      then obtain l r where "cs = l @ t @ r" using Cons.IH by auto
      then have "c # cs = (c # l) @ t @ r" by simp
      then show ?thesis by blast
    qed
  next
    assume "\<exists>l r. c # cs = l @ t @ r"
    then obtain l r where lr: "c # cs = l @ t @ r" by auto
    show "str_includes (c # cs) t"
    proof (cases l)
      case Nil
      then have "starts_with (c # cs) t" using lr by (auto simp: starts_with_iff)
      then show ?thesis by simp
    next
      case (Cons a l')
      then have "cs = l' @ t @ r" using lr by simp
      then have "str_includes cs t" using Cons.IH by blast
      then show ?thesis by simp
    qed
  qed
qed

lemma starts_with_sep:
  "sep \<notin> set t \<Longrightarrow> starts_with (a @ sep # b) t = starts_with a t"
  by (induction a t rule: starts_with.induct) simp_all

text \<open>A term without the separator cannot lie across it.\<close>

lemma str_includes_sep:
  "sep \<notin> set t \<Longrightarrow> t \<noteq> [] \<Longrightarrow>
   str_includes (a @ sep # b) t = (str_includes a t \<or> str_includes b t)"
proof (induction a)
  case Nil
  then have "\<not> starts_with (sep # b) t" by (cases t) auto
  then show ?case using Nil by simp
next
  case (Cons c cs)
  have "starts_with ((c # cs) @ sep # b) t = starts_with (c # cs) t"
    using Cons.prems(1) by (rule starts_with_sep)
  then show ?case using Cons by auto
qed

lemma words_of_Nil [simp]: "words_of [] = []"
  by (simp add: words_of.simps)

lemma words_of_space [simp]: "is_space c \<Longrightarrow> words_of (c # cs) = words_of cs"
  by (simp add: words_of.simps [of "c # cs"] words_of.simps [of cs])

lemma words_of_nonspace:
  "\<not> is_space c \<Longrightarrow>
   words_of (c # cs) =
     (c # takeWhile (\<lambda>c. \<not> is_space c) cs) # words_of (dropWhile (\<lambda>c. \<not> is_space c) cs)"
  by (simp add: words_of.simps [of "c # cs"])

lemma words_of_dropWhile: "words_of (dropWhile is_space s) = words_of s"
  by (induction s) auto

lemma words_of_all_space: "list_all is_space s \<Longrightarrow> words_of s = []"
  by (induction s) auto

text \<open>
  The pieces of \<open>split\<close> are the terms and, besides, empty strings: one for white
  space at the start, one for white space at the end.
\<close>

lemma split_ws_words: "filter (\<lambda>t. t \<noteq> []) (split_ws s) = words_of s"
proof (induction s rule: split_ws.induct)
  case (1 s)
  let ?a = "takeWhile (\<lambda>c. \<not> is_space c) s"
  let ?d = "dropWhile (\<lambda>c. \<not> is_space c) s"
  have tail: "filter (\<lambda>t. t \<noteq> [])
                (case ?d of [] \<Rightarrow> [] | c # cs \<Rightarrow> split_ws (dropWhile is_space cs)) = words_of ?d"
  proof (cases ?d)
    case Nil
    then show ?thesis by (simp del: dropWhile_eq_Nil_conv)
  next
    case (Cons c cs)
    then have "is_space c"
      using hd_dropWhile [of "\<lambda>c. \<not> is_space c" s] by auto
    then show ?thesis
      using Cons "1.IH" [OF Cons] by (simp add: words_of_dropWhile)
  qed
  show ?case
  proof (cases s)
    case Nil
    then show ?thesis by (simp add: split_ws.simps [of "[]"])
  next
    case (Cons x xs)
    show ?thesis
    proof (cases "is_space x")
      case True
      have "split_ws s = [] # split_ws (dropWhile is_space xs)"
        using True Cons by (subst split_ws.simps) simp
      moreover have "words_of ?d = words_of xs"
        using True Cons by simp
      moreover have "filter (\<lambda>t. t \<noteq> []) (split_ws (dropWhile is_space xs)) = words_of ?d"
        using tail True Cons by simp
      ultimately show ?thesis
        using True Cons by simp
    next
      case False
      have "split_ws s = ?a # (case ?d of [] \<Rightarrow> [] | c # cs \<Rightarrow> split_ws (dropWhile is_space cs))"
        by (subst split_ws.simps) (rule refl)
      moreover have "?a \<noteq> []"
        using False Cons by simp
      moreover have "words_of s = ?a # words_of ?d"
        using False Cons by (simp add: words_of_nonspace)
      ultimately show ?thesis
        using tail by simp
    qed
  qed
qed

lemma list_all_split_ws:
  assumes "P []"
  shows "list_all P (split_ws s) = list_all P (words_of s)"
proof -
  have h: "list_all P xs = list_all P (filter (\<lambda>t. t \<noteq> []) xs)" for xs
    using assms by (induction xs) auto
  from h [of "split_ws s"] show ?thesis
    unfolding split_ws_words .
qed

lemma words_of_no_space:
  "t \<in> set (words_of s) \<Longrightarrow> t \<noteq> [] \<and> list_all (\<lambda>c. \<not> is_space c) t"
proof (induction s rule: words_of.induct)
  case (1 s)
  show ?case
  proof (cases "dropWhile is_space s")
    case Nil
    then have "words_of s = []"
      by (subst words_of.simps) (simp del: dropWhile_eq_Nil_conv)
    then show ?thesis using "1.prems" by simp
  next
    case (Cons c cs)
    then have nc: "\<not> is_space c"
      using hd_dropWhile [of is_space s] by auto
    have "words_of s = (c # takeWhile (\<lambda>c. \<not> is_space c) cs) #
                         words_of (dropWhile (\<lambda>c. \<not> is_space c) cs)"
      using Cons by (subst words_of.simps) simp
    then consider "t = c # takeWhile (\<lambda>c. \<not> is_space c) cs"
      | "t \<in> set (words_of (dropWhile (\<lambda>c. \<not> is_space c) cs))"
      using "1.prems" by auto
    then show ?thesis
    proof cases
      case 1
      then show ?thesis using nc by (auto simp: list_all_iff dest: set_takeWhileD)
    next
      case 2
      then show ?thesis using "1.IH" [OF Cons] by simp
    qed
  qed
qed

lemma lower_char_ws:
  "lower_char CHR '' '' = CHR '' ''" "lower_char CHR 0x09 = CHR 0x09"
  "lower_char CHR 0x0A = CHR 0x0A" "lower_char CHR 0x0B = CHR 0x0B"
  "lower_char CHR 0x0C = CHR 0x0C" "lower_char CHR 0x0D = CHR 0x0D"
  by (simp_all add: lower_char_def)

lemma is_space_cases: "is_space c \<Longrightarrow> lower_char c = c"
  unfolding is_space_def using lower_char_ws by metis

lemma toLowerCase_append [simp]: "toLowerCase (a @ b) = toLowerCase a @ toLowerCase b"
  by (simp add: toLowerCase_def)

lemma toLowerCase_Cons [simp]: "toLowerCase (c # s) = lower_char c # toLowerCase s"
  by (simp add: toLowerCase_def)

lemma toLowerCase_Nil [simp]: "toLowerCase [] = []"
  by (simp add: toLowerCase_def)

lemma searchable_joined: "searchable g e sp = joined_fields g e sp"
  by (simp add: searchable_def joined_fields_def lower_char_ws)

lemma joined_fields_split:
  assumes "t \<noteq> []" and "list_all (\<lambda>c. \<not> is_space c) t"
  shows "str_includes (joined_fields g e sp) t = in_some_field t (g, e, sp)"
proof -
  have sp: "CHR '' '' \<notin> set t"
    using assms(2) by (auto simp: list_all_iff is_space_def)
  have "joined_fields g e sp =
          toLowerCase g @ CHR '' '' # (toLowerCase e @ CHR '' '' #
            (toLowerCase (description sp) @ CHR '' '' # toLowerCase (type_name (type sp))))"
    by (simp add: joined_fields_def lower_char_ws)
  then show ?thesis
    using sp assms(1) by (simp add: str_includes_sep in_some_field_def)
qed

subsection \<open>The loops of searchEndpoints\<close>

lemma search_group_filter:
  "\<not> skip_group options g \<Longrightarrow>
   search_group options terms g eps results =
     results @ map mk_result (filter (keep options terms) (map (\<lambda>es. (g, fst es, snd es)) eps))"
proof (induction eps arbitrary: results)
  case Nil
  show ?case by simp
next
  case (Cons es rest)
  obtain e sp where es: "es = (e, sp)" by (cases es)
  have k: "keep options terms (g, e, sp) =
             (\<not> skip_type options sp \<and>
              list_all (\<lambda>term. str_includes (searchable g e sp) term) terms)"
    using Cons.prems by (simp add: keep_def)
  show ?case
  proof (cases "keep options terms (g, e, sp)")
    case True
    then show ?thesis
      using k Cons.IH [OF Cons.prems, of "results @ [mk_result (g, e, sp)]"]
      by (simp add: es)
  next
    case False
    then show ?thesis
      using k Cons.IH [OF Cons.prems, of results]
      by (auto simp: es)
  qed
qed

lemma search_group_skipped:
  "skip_group options g \<Longrightarrow>
   filter (keep options terms) (map (\<lambda>es. (g, fst es, snd es)) eps) = []"
  by (induction eps) (auto simp: keep_def)

lemma search_all_filter:
  "search_all options terms all results =
     results @ map mk_result (filter (keep options terms) (triples all))"
proof (induction all arbitrary: results)
  case Nil
  show ?case by (simp add: triples_def)
next
  case (Cons ge rest)
  obtain g eps where ge: "ge = (g, eps)" by (cases ge)
  show ?case
  proof (cases "skip_group options g")
    case True
    then show ?thesis
      using Cons.IH [of results] search_group_skipped [of options g terms eps]
      by (simp add: ge triples_def)
  next
    case False
    then show ?thesis
      using Cons.IH [of "search_group options terms g eps results"]
      by (simp add: ge triples_def search_group_filter)
  qed
qed

lemma keep_matches: "keep options (split_ws (toLowerCase query)) t = matches options query t"
proof -
  obtain g e sp where t: "t = (g, e, sp)" by (cases t)
  have "list_all (\<lambda>term. str_includes (searchable g e sp) term) (split_ws (toLowerCase query)) =
        list_all (\<lambda>term. str_includes (searchable g e sp) term) (words_of (toLowerCase query))"
    by (rule list_all_split_ws) simp
  then show ?thesis
    by (auto simp: t keep_def matches_def filters_pass_def skip_group_def skip_type_def
          spec_terms_def searchable_joined split: option.splits)
qed

lemma searchEndpoints_filter:
  "searchEndpoints all query options = map mk_result (filter (matches options query) (triples all))"
proof -
  have "keep options (split_ws (toLowerCase query)) = matches options query"
    by (rule ext) (rule keep_matches)
  then show ?thesis
    by (simp add: searchEndpoints_def search_all_filter)
qed

lemma matches_all_space:
  assumes "list_all is_space query"
  shows "matches no_options query t"
proof -
  have "toLowerCase query = query"
    using assms by (simp add: toLowerCase_def list_all_iff is_space_cases map_idI)
  then have "spec_terms query = []"
    using assms by (simp add: spec_terms_def words_of_all_space)
  then show ?thesis
    by (cases t) (simp add: matches_def filters_pass_def no_options_def)
qed

lemma matches_in_some_field:
  assumes "term \<in> set (spec_terms query)" and "matches options query t"
  shows "in_some_field term t"
proof -
  obtain g e sp where t: "t = (g, e, sp)" by (cases t)
  have ns: "term \<noteq> []" "list_all (\<lambda>c. \<not> is_space c) term"
    using assms(1) words_of_no_space [of "term" "toLowerCase query"]
    by (simp_all add: spec_terms_def)
  have "str_includes (joined_fields g e sp) term"
    using assms by (auto simp: t matches_def list_all_iff)
  then show ?thesis
    using joined_fields_split [OF ns, of g e sp] by (simp add: t)
qed

subsection \<open>Lookups and iteration\<close>

lemma set_triples:
  "set (triples all) = {(g, e, sp). \<exists>eps. (g, eps) \<in> set all \<and> (e, sp) \<in> set eps}"
  by (auto simp: triples_def)

lemma in_catalog_Some_triples:
  "in_catalog all g e = Some sp \<Longrightarrow> (g, e, sp) \<in> set (triples all)"
proof -
  assume "in_catalog all g e = Some sp"
  then obtain eps where "map_of all g = Some eps" and "map_of eps e = Some sp"
    by (auto simp: in_catalog_def split: option.splits)
  then have "(g, eps) \<in> set all" and "(e, sp) \<in> set eps"
    by (auto dest: map_of_SomeD)
  then show ?thesis
    by (auto simp: set_triples)
qed

lemma in_catalog_triples:
  assumes "wf_store all"
  shows "in_catalog all g e = Some sp \<longleftrightarrow> (g, e, sp) \<in> set (triples all)"
proof
  assume "in_catalog all g e = Some sp"
  then show "(g, e, sp) \<in> set (triples all)" by (rule in_catalog_Some_triples)
next
  have d: "distinct (map fst all)" using assms by (simp add: wf_store_def)
  assume "(g, e, sp) \<in> set (triples all)"
  then obtain eps where m: "(g, eps) \<in> set all" "(e, sp) \<in> set eps"
    by (auto simp: set_triples)
  have "distinct (map fst eps)"
    using assms m(1) by (auto simp: wf_store_def list_all_iff)
  then have "map_of eps e = Some sp" using m(2) by simp
  moreover have "map_of all g = Some eps" using d m(1) by simp
  ultimately show "in_catalog all g e = Some sp"
    by (simp add: in_catalog_def)
qed

text \<open>
  \<open>getEndpointInfo\<close> returns a specification exactly for the pairs of the catalog;
  what the host supplies is never one.
\<close>

lemma from_host_not_Spec [simp]: "from_host v \<noteq> Inr (Spec sp)"
  by (cases v) simp_all

lemma getEndpointInfo_Spec:
  "getEndpointInfo h all grp ep = Inr (Spec sp) \<longleftrightarrow> in_catalog all grp ep = Some sp"
  by (auto simp: getEndpointInfo_def in_catalog_def split: option.splits host_value.splits)

lemma getEndpointInfo_in_catalog:
  "in_catalog all grp ep = Some sp \<Longrightarrow> getEndpointInfo h all grp ep = Inr (Spec sp)"
  by (simp add: getEndpointInfo_Spec)

text \<open>Where nothing is inherited under either name, an absent pair gives \<open>null\<close>.\<close>

lemma getEndpointInfo_plain:
  assumes "in_catalog all grp ep = None"
    and "inherited h grp = Absent" and "inherited h ep = Absent"
  shows "getEndpointInfo h all grp ep = Inr Null"
  using assms
  by (auto simp: getEndpointInfo_def in_catalog_def split: option.splits)

lemma buildOscPath_Some:
  "getEndpointInfo h all grp ep = Inr (Spec sp) \<Longrightarrow>
   buildOscPath h all grp ep index =
     Inr (Some (''/'' @ type_name (type sp) @ ''/'' @ grp @ ''/'' @ ep @
                (case index of
                   Some i \<Rightarrow> if multiPath sp then ''/'' @ number_toString h i else []
                 | None \<Rightarrow> [])))"
  by (simp add: buildOscPath_def base_path_def Let_def split: option.splits)

lemma buildOscPath_plain:
  assumes "in_catalog all grp ep = None"
    and "inherited h grp = Absent" and "inherited h ep = Absent"
  shows "buildOscPath h all grp ep index = Inr None"
  using getEndpointInfo_plain [OF assms] by (simp add: buildOscPath_def)

lemma wf_demo_store: "wf_store demo_store"
  by (simp add: wf_store_def demo_store_def)

subsection \<open>Claims about the catalog\<close>

text \<open>
  C1, with the searchable string as the code builds it. \<open>searchEndpoints\<close>
  returns, in the iteration order of the store,
  exactly the triples that pass the filters (a group filter that is supplied and
  not empty, a type filter that is supplied) and for which every term of the
  lower-cased query occurs in the lower-cased string made of group name, endpoint
  name, description and message type joined by single spaces. Each result carries
  the triple and its address without an index.
\<close>

theorem searchEndpoints_matches:
  "searchEndpoints all query options =
     map mk_result (filter (matches options query) (triples all))"
  by (rule searchEndpoints_filter)

theorem searchEndpoints_matches_witness:
  "map oscPath (searchEndpoints demo_store ''mic  EN''
      \<lparr>opt_group = Some '''', opt_type = Some enPPCSwitchMessage\<rparr>) =
     [''/enPPCSwitchMessage/VirtualMicInputs/enMute'']"
proof -
  have "map oscPath (map mk_result (filter
          (matches \<lparr>opt_group = Some '''', opt_type = Some enPPCSwitchMessage\<rparr> ''mic  EN'')
          (triples demo_store))) = [''/enPPCSwitchMessage/VirtualMicInputs/enMute'']"
    by code_simp
  then show ?thesis
    unfolding searchEndpoints_matches .
qed

text \<open>
  C1 as stated fails: with the fields concatenated with nothing between them, the
  term \<open>sen\<close> would be found across the end of \<open>VirtualMicInputs\<close> and the start of
  \<open>enFader\<close>; the code joins the fields with spaces and finds nothing.
\<close>

theorem searchEndpoints_concatenation_counterexample:
  "searchEndpoints demo_store ''sen'' no_options \<noteq>
     map mk_result (filter (claimed_matches no_options ''sen'') (triples demo_store))"
  by code_simp

text \<open>
  Away from the inherited names \<open>buildOscPath\<close> does what C2 says: for a store
  with unique keys it returns \<open>null\<close> when the store has no triple for the pair,
  and otherwise the string \<open>/type/group/endpoint\<close>, followed by \<open>/index\<close> exactly
  when the endpoint is multi-path and an index is given.
\<close>

lemma buildOscPath_own_keys:
  assumes "wf_store all" and "inherited h grp = Absent" and "inherited h ep = Absent"
  shows "buildOscPath h all grp ep index =
           (case find (\<lambda>t. fst t = grp \<and> fst (snd t) = ep) (triples all) of
              None \<Rightarrow> Inr None
            | Some t \<Rightarrow>
                Inr (Some (''/'' @ type_name (type (snd (snd t))) @ ''/'' @ grp @ ''/'' @ ep @
                      (if multiPath (snd (snd t)) \<and> index \<noteq> None
                       then ''/'' @ number_toString h (the index) else []))))"
proof (cases "find (\<lambda>t. fst t = grp \<and> fst (snd t) = ep) (triples all)")
  case None
  have "in_catalog all grp ep = None"
  proof (cases "in_catalog all grp ep")
    case (Some sp)
    then have "(grp, ep, sp) \<in> set (triples all)" by (rule in_catalog_Some_triples)
    then show ?thesis using None by (auto simp: find_None_iff)
  qed simp
  then show ?thesis
    using None assms(2,3) by (simp add: buildOscPath_plain)
next
  case (Some t)
  then have "t \<in> set (triples all)" and "fst t = grp" and "fst (snd t) = ep"
    by (auto simp: find_Some_iff)
  then have "(grp, ep, snd (snd t)) \<in> set (triples all)"
    by (cases t) auto
  then have "getEndpointInfo h all grp ep = Inr (Spec (snd (snd t)))"
    using assms(1) by (simp add: getEndpointInfo_Spec in_catalog_triples)
  then show ?thesis
    using Some by (cases index) (simp_all add: buildOscPath_Some)
qed

text \<open>
  C2 fails on the code. The pair \<open>VirtualMicInputs\<close>, \<open>constructor\<close> is not in the
  store, so the result should be \<open>null\<close>. But the group is a plain object and
  inherits \<open>constructor\<close> from \<open>Object.prototype\<close>; \<open>getEndpointInfo\<close> returns that
  function, which is truthy, and \<open>buildOscPath\<close> makes an address of it.
\<close>

theorem buildOscPath_inherited_name:
  "in_catalog demo_store ''VirtualMicInputs'' ''constructor'' = None \<and>
   getEndpointInfo demo_host demo_store ''VirtualMicInputs'' ''constructor'' = Inr (Foreign True) \<and>
   buildOscPath demo_host demo_store ''VirtualMicInputs'' ''constructor'' None =
     Inr (Some ''/undefined/VirtualMicInputs/constructor'')"
proof -
  have a: "in_catalog demo_store ''VirtualMicInputs'' ''constructor'' = None"
    by code_simp
  have b: "getEndpointInfo demo_host demo_store ''VirtualMicInputs'' ''constructor'' =
             Inr (Foreign True)"
    by code_simp
  show ?thesis
    using a b by (simp add: buildOscPath_def)
qed

text \<open>
  C8. A query that is empty or consists of white space only, with no filter,
  returns every endpoint of the store. A query with a term that occurs (letter
  case aside, as everywhere in the search) in no group name, endpoint name,
  description or message type of the store returns nothing, whatever the filters.
\<close>

theorem search_empty_and_unmatched:
  "(list_all is_space query \<longrightarrow>
      searchEndpoints all query no_options = map mk_result (triples all)) \<and>
   (tm \<in> set (spec_terms query) \<and> list_all (\<lambda>t. \<not> in_some_field tm t) (triples all) \<longrightarrow>
      searchEndpoints all query options = [])"
proof (intro conjI impI)
  assume "list_all is_space query"
  then have "filter (matches no_options query) (triples all) = triples all"
    by (simp add: matches_all_space)
  then show "searchEndpoints all query no_options = map mk_result (triples all)"
    by (simp add: searchEndpoints_filter)
next
  assume a: "tm \<in> set (spec_terms query) \<and> list_all (\<lambda>t. \<not> in_some_field tm t) (triples all)"
  have "\<not> matches options query t" if "t \<in> set (triples all)" for t
    using a that matches_in_some_field [of tm query options t]
    by (auto simp: list_all_iff)
  then have "filter (matches options query) (triples all) = []"
    by (simp add: filter_empty_conv)
  then show "searchEndpoints all query options = []"
    by (simp add: searchEndpoints_filter)
qed

theorem search_empty_and_unmatched_witness:
  "list_all is_space [CHR '' '', CHR 0x09] \<and>
   searchEndpoints demo_store [CHR '' '', CHR 0x09] no_options = map mk_result (triples demo_store) \<and>
   length (searchEndpoints demo_store [] no_options) = 6 \<and>
   ''zzz'' \<in> set (spec_terms ''Fader ZZZ'') \<and>
   searchEndpoints demo_store ''Fader ZZZ'' no_options = []"
proof -
  have w: "list_all is_space [CHR '' '', CHR 0x09]" "list_all is_space []"
    by (simp_all add: is_space_def)
  have t: "''zzz'' \<in> set (spec_terms ''Fader ZZZ'')"
    by code_simp
  have n: "list_all (\<lambda>t. \<not> in_some_field ''zzz'' t) (triples demo_store)"
    by code_simp
  have l: "length (map mk_result (triples demo_store)) = 6"
    by code_simp
  note th = search_empty_and_unmatched
  have "searchEndpoints demo_store [CHR '' '', CHR 0x09] no_options = map mk_result (triples demo_store)"
    using th [where query = "[CHR '' '', CHR 0x09]" and all = demo_store] w by blast
  moreover have "searchEndpoints demo_store [] no_options = map mk_result (triples demo_store)"
    using th [where query = "[]" and all = demo_store] w by blast
  moreover have "searchEndpoints demo_store ''Fader ZZZ'' no_options = []"
    using th [where tm = "''zzz''" and query = "''Fader ZZZ''" and all = demo_store
                and options = no_options] t n by blast
  ultimately show ?thesis
    using w t l by simp
qed

section \<open>Properties of the client\<close>

subsection \<open>The session invariant\<close>

lemma session_inv_init: "session_inv midasClient"
  by (simp add: session_inv_def midasClient_def)

lemma disconnect_fields:
  "client (disconnect this) = None"
  "listener (disconnect this) = None"
  "config (disconnect this) = None"
  "responseBuffer (disconnect this) = Map.empty"
  "sent (disconnect this) = sent this"
  by (simp_all add: disconnect_def Let_def split: option.splits)

lemma disconnect_closes:
  "session_inv this \<Longrightarrow> open_clients (disconnect this) = [] \<and> open_listeners (disconnect this) = []"
  by (auto simp: session_inv_def disconnect_def Let_def split: option.splits)

lemma session_inv_disconnect: "session_inv this \<Longrightarrow> session_inv (disconnect this)"
  using disconnect_closes [of this]
  by (simp add: session_inv_def disconnect_fields)

lemma disconnect_noop:
  "session_inv this \<Longrightarrow> client this = None \<Longrightarrow> disconnect this = this"
  by (simp add: session_inv_def disconnect_def Let_def)

lemma connect_fields:
  assumes "session_inv this"
  shows "client (connect this i p lp) =
           Some (i, case p of Some p \<Rightarrow> p | None \<Rightarrow> 10023)"
    and "listener (connect this i p lp) =
           Some (case lp of Some lp \<Rightarrow> lp | None \<Rightarrow> 10024, ''0.0.0.0'')"
    and "config (connect this i p lp) =
           Some \<lparr>ip = i, port = (case p of Some p \<Rightarrow> p | None \<Rightarrow> 10023),
                 listenPort = (case lp of Some lp \<Rightarrow> lp | None \<Rightarrow> 10024)\<rparr>"
    and "open_clients (connect this i p lp) =
           [(i, case p of Some p \<Rightarrow> p | None \<Rightarrow> 10023)]"
    and "open_listeners (connect this i p lp) =
           [(case lp of Some lp \<Rightarrow> lp | None \<Rightarrow> 10024, ''0.0.0.0'')]"
    and "responseBuffer (connect this i p lp) = Map.empty"
proof -
  let ?s = "if client this \<noteq> None then disconnect this else this"
  have s: "open_clients ?s = [] \<and> open_listeners ?s = [] \<and> responseBuffer ?s = Map.empty"
  proof (cases "client this")
    case None
    then show ?thesis using assms by (simp add: session_inv_def)
  next
    case (Some c)
    then show ?thesis using disconnect_closes [OF assms] by (simp add: disconnect_fields)
  qed
  show "client (connect this i p lp) = Some (i, case p of Some p \<Rightarrow> p | None \<Rightarrow> 10023)"
    by (simp add: connect_def Let_def)
  show "listener (connect this i p lp) =
          Some (case lp of Some lp \<Rightarrow> lp | None \<Rightarrow> 10024, ''0.0.0.0'')"
    by (simp add: connect_def Let_def)
  show "config (connect this i p lp) =
          Some \<lparr>ip = i, port = (case p of Some p \<Rightarrow> p | None \<Rightarrow> 10023),
                listenPort = (case lp of Some lp \<Rightarrow> lp | None \<Rightarrow> 10024)\<rparr>"
    by (simp add: connect_def Let_def)
  show "open_clients (connect this i p lp) = [(i, case p of Some p \<Rightarrow> p | None \<Rightarrow> 10023)]"
    using s by (simp add: connect_def Let_def)
  show "open_listeners (connect this i p lp) =
          [(case lp of Some lp \<Rightarrow> lp | None \<Rightarrow> 10024, ''0.0.0.0'')]"
    using s by (simp add: connect_def Let_def)
  show "responseBuffer (connect this i p lp) = Map.empty"
    using s by (simp add: connect_def Let_def)
qed

lemma session_inv_connect: "session_inv this \<Longrightarrow> session_inv (connect this i p lp)"
  by (simp add: session_inv_def [of "connect this i p lp"] connect_fields)

lemma session_inv_receive: "session_inv this \<Longrightarrow> session_inv (receive this m)"
  by (cases m) (auto simp: session_inv_def receive_def on_message_def split: option.splits)

lemma session_inv_deliver: "session_inv this \<Longrightarrow> session_inv (deliver ms this)"
  unfolding deliver_def
  by (induction ms arbitrary: this) (simp_all add: session_inv_receive)

lemma session_inv_poll:
  "session_inv this \<Longrightarrow> session_inv (snd (poll path t d this tks))"
  by (induction tks arbitrary: this) (auto simp: session_inv_deliver split: option.splits)

lemma session_inv_getValue:
  assumes "session_inv this"
  shows "session_inv (snd (getValue h all this grp ep index t e))"
proof (cases "client this")
  case None
  then show ?thesis using assms by (simp add: getValue_def)
next
  case (Some c)
  show ?thesis
  proof (cases "buildOscPath h all grp ep index")
    case (Inl err)
    then show ?thesis using assms Some by (simp add: getValue_def)
  next
    case (Inr p)
    show ?thesis
    proof (cases p)
      case None
      then show ?thesis using assms Inr Some by (simp add: getValue_def)
    next
      case (Some path)
      let ?s2 = "this\<lparr>responseBuffer := (responseBuffer this)(path := None),
                       sent := sent this @ [\<lparr>msg_address = path, msg_args = []\<rparr>]\<rparr>"
      have "session_inv ?s2"
        using assms \<open>client this = Some c\<close>
        by (auto simp: session_inv_def split: option.splits)
      then have "session_inv (snd (poll path (case t of Some t \<Rightarrow> t | None \<Rightarrow> 2000)
                   (t_start e + (case t of Some t \<Rightarrow> t | None \<Rightarrow> 2000))
                   (deliver (send_arrivals e) ?s2) (ticks e)))"
        by (intro session_inv_poll session_inv_deliver)
      then show ?thesis
        using Some Inr \<open>client this = Some c\<close>
        by (simp add: getValue_def Let_def split_beta)
    qed
  qed
qed

text \<open>A \<open>setValue\<close> that returns has sent one message and changed nothing else.\<close>

lemma setValue_sends:
  "setValue h all this grp ep val index = Inr s \<Longrightarrow> \<exists>msg. s = send_msg this msg"
  by (auto simp: setValue_def
        split: option.splits sum.splits endpoint_info.splits if_splits
               ArgumentType.splits js_value.splits)

lemma session_inv_setValue:
  "session_inv this \<Longrightarrow> setValue h all this grp ep val index = Inr s \<Longrightarrow> session_inv s"
  using setValue_sends [of h all this grp ep val index s]
  by (auto simp: send_msg_def session_inv_def split: option.splits)

lemma session_inv_exec: "session_inv this \<Longrightarrow> session_inv (exec h all this c)"
proof (cases c)
  case (SetValue grp ep val index)
  assume "session_inv this"
  then show ?thesis
    using SetValue session_inv_setValue [of this h all grp ep val index]
    by (cases "setValue h all this grp ep val index") simp_all
qed (simp_all add: session_inv_connect session_inv_disconnect session_inv_getValue
       session_inv_receive)

lemma session_inv_foldl:
  "session_inv this \<Longrightarrow> session_inv (foldl (exec h all) this calls)"
  by (induction calls arbitrary: this) (simp_all add: session_inv_exec)

lemma session_inv_run: "session_inv (run h all calls)"
  unfolding run_def by (rule session_inv_foldl) (rule session_inv_init)

lemma session_inv_consistent: "session_inv this \<Longrightarrow> consistent this"
  by (auto simp: session_inv_def consistent_def split: option.splits)


text \<open>Only \<open>connect\<close> and \<open>disconnect\<close> touch the three handles.\<close>

lemma handles_receive:
  "client (receive this m) = client this \<and> listener (receive this m) = listener this \<and>
   config (receive this m) = config this"
  by (cases m) (simp add: receive_def on_message_def)

lemma handles_deliver:
  "client (deliver ms this) = client this \<and> listener (deliver ms this) = listener this \<and>
   config (deliver ms this) = config this"
  unfolding deliver_def
  by (induction ms arbitrary: this) (simp_all add: handles_receive)

lemma handles_poll:
  "client (snd (poll path t d this tks)) = client this \<and>
   listener (snd (poll path t d this tks)) = listener this \<and>
   config (snd (poll path t d this tks)) = config this"
  by (induction tks arbitrary: this) (simp_all add: handles_deliver split: option.splits)

lemma handles_getValue:
  "client (snd (getValue h all this grp ep index t e)) = client this \<and>
   listener (snd (getValue h all this grp ep index t e)) = listener this \<and>
   config (snd (getValue h all this grp ep index t e)) = config this"
  by (simp add: getValue_def Let_def split_beta handles_poll handles_deliver
        split: option.splits sum.splits)

lemma handles_setValue:
  "setValue h all this grp ep val index = Inr s \<Longrightarrow>
   client s = client this \<and> listener s = listener this \<and> config s = config this \<and>
   responseBuffer s = responseBuffer this"
  using setValue_sends [of h all this grp ep val index s]
  by (auto simp: send_msg_def)

lemma handles_exec_SetValue:
  "client (exec h all this (SetValue grp ep val index)) = client this"
proof (cases "setValue h all this grp ep val index")
  case (Inl err)
  then show ?thesis by simp
next
  case (Inr s)
  then have "client s = client this" by (simp add: handles_setValue)
  then show ?thesis using Inr by simp
qed

lemma handles_exec:
  "client (exec h all this (GetValue grp ep index t e)) = client this"
  "client (exec h all this (SetValue grp ep val index)) = client this"
  "client (exec h all this (Receive m)) = client this"
  by (simp_all add: handles_getValue handles_receive handles_exec_SetValue
        del: exec.simps(4))

subsection \<open>Claims about the session\<close>

text \<open>
  C10. After any sequence of \<open>connect\<close>, \<open>disconnect\<close>, \<open>getValue\<close> and \<open>setValue\<close>
  calls (and of messages arriving in between), the send client, the listener and
  the configuration are all present or all absent; so \<open>isConnected\<close> holds exactly
  when \<open>connectionInfo\<close> is not null.
\<close>

theorem handles_all_or_none:
  "consistent (run h all calls) \<and>
   (isConnected (run h all calls) \<longleftrightarrow> connectionInfo (run h all calls) \<noteq> None)"
proof -
  have "consistent (run h all calls)"
    by (rule session_inv_consistent) (rule session_inv_run)
  then show ?thesis
    by (auto simp: consistent_def isConnected_def connectionInfo_def)
qed

theorem handles_all_or_none_witness:
  "isConnected (run demo_host demo_store
      [Connect ''192.168.1.100'' None None, Receive (1000, ''/a'', [1 :: nat]),
       SetValue ''Globals'' ''enName'' (StringV ''FOH'') None]) \<and>
   connectionInfo (run demo_host demo_store
      [Connect ''192.168.1.100'' None None, Receive (1000, ''/a'', [1 :: nat]),
       SetValue ''Globals'' ''enName'' (StringV ''FOH'') None]) \<noteq> None \<and>
   \<not> isConnected (run demo_host demo_store
      [Connect ''192.168.1.100'' None None, Receive (1000, ''/a'', [1 :: nat]), Disconnect]) \<and>
   connectionInfo (run demo_host demo_store
      [Connect ''192.168.1.100'' None None, Receive (1000, ''/a'', [1 :: nat]), Disconnect]) = None"
proof -
  let ?on = "run demo_host demo_store
      [Connect ''192.168.1.100'' None None, Receive (1000, ''/a'', [1 :: nat]),
       SetValue ''Globals'' ''enName'' (StringV ''FOH'') None]"
  let ?off = "run demo_host demo_store
      [Connect ''192.168.1.100'' None None, Receive (1000, ''/a'', [1 :: nat]), Disconnect]"
  have a: "isConnected ?on"
    by (simp add: run_def isConnected_def handles_exec connect_fields session_inv_init
          del: exec.simps(3,4,5))
  have b: "\<not> isConnected ?off"
    by (simp add: run_def isConnected_def disconnect_fields)
  from a b
    handles_all_or_none [of demo_host demo_store
      "[Connect ''192.168.1.100'' None None, Receive (1000, ''/a'', [1 :: nat]),
        SetValue ''Globals'' ''enName'' (StringV ''FOH'') None]"]
    handles_all_or_none [of demo_host demo_store
      "[Connect ''192.168.1.100'' None None, Receive (1000, ''/a'', [1 :: nat]), Disconnect]"]
  show ?thesis by blast
qed

text \<open>
  C6. Two calls of \<open>connect\<close> with no \<open>disconnect\<close> between them (whatever else
  happens between them) leave one session: the configuration is that of the second
  call, the only send socket and the only listener open are those of the second
  call, and the response buffer is empty.
\<close>

theorem connect_twice_one_session:
  "(let s1 = connect (run h all calls) ip1 p1 lp1;
        s2 = foldl (exec h all) s1 between;
        s3 = connect s2 ip2 p2 lp2;
        cfg = \<lparr>ip = ip2, port = (case p2 of Some p \<Rightarrow> p | None \<Rightarrow> 10023),
               listenPort = (case lp2 of Some l \<Rightarrow> l | None \<Rightarrow> 10024)\<rparr>
    in connectionInfo s3 = Some cfg \<and> isConnected s3 \<and>
       client s3 = Some (ip2, port cfg) \<and> listener s3 = Some (listenPort cfg, ''0.0.0.0'') \<and>
       open_clients s3 = [(ip2, port cfg)] \<and>
       open_listeners s3 = [(listenPort cfg, ''0.0.0.0'')] \<and>
       responseBuffer s3 = Map.empty)"
proof -
  let ?s2 = "foldl (exec h all) (connect (run h all calls) ip1 p1 lp1) between"
  have "session_inv (connect (run h all calls) ip1 p1 lp1)"
    by (intro session_inv_connect session_inv_run)
  then have "session_inv ?s2"
    by (rule session_inv_foldl)
  then show ?thesis
    by (simp add: Let_def connect_fields connectionInfo_def isConnected_def)
qed

theorem connect_twice_one_session_witness:
  "(let s1 = connect (run demo_host demo_store []) ''10.0.0.1'' None None;
        s2 = foldl (exec demo_host demo_store) s1 [Receive (1000, ''/a'', [1 :: nat])];
        s3 = connect s2 ''10.0.0.2'' (Some 9000) None
    in responseBuffer s2 ''/a'' = Some \<lparr>address = ''/a'', args = [1], timestamp = 1000\<rparr> \<and>
       open_clients s2 = [(''10.0.0.1'', 10023)] \<and>
       connectionInfo s3 = Some \<lparr>ip = ''10.0.0.2'', port = 9000, listenPort = 10024\<rparr> \<and>
       open_clients s3 = [(''10.0.0.2'', 9000)] \<and>
       open_listeners s3 = [(10024, ''0.0.0.0'')] \<and>
       responseBuffer s3 ''/a'' = None)"
proof -
  let ?s2 = "foldl (exec demo_host demo_store)
               (connect (run demo_host demo_store []) ''10.0.0.1'' None None)
               [Receive (1000, ''/a'', [1 :: nat])]"
  have a: "responseBuffer ?s2 ''/a'' = Some \<lparr>address = ''/a'', args = [1], timestamp = 1000\<rparr> \<and>
           open_clients ?s2 = [(''10.0.0.1'', 10023)]"
    by (simp add: run_def connect_def midasClient_def receive_def on_message_def Let_def)
  show ?thesis
    using a connect_twice_one_session [of demo_host demo_store "[]" "''10.0.0.1''" None None
        "[Receive (1000, ''/a'', [1 :: nat])]" "''10.0.0.2''" "Some 9000" None]
    by (simp add: Let_def)
qed

text \<open>
  C7. After \<open>disconnect\<close> the client is disconnected, its configuration is null and
  its response buffer is empty; after any sequence of calls \<open>disconnect\<close> leaves no
  socket open; and on a client that is already disconnected it changes nothing.
  \<open>disconnect\<close> has no failing branch.
\<close>

theorem disconnect_clears:
  "\<not> isConnected (disconnect this) \<and> client (disconnect this) = None \<and>
   listener (disconnect this) = None \<and> connectionInfo (disconnect this) = None \<and>
   responseBuffer (disconnect this) = Map.empty \<and>
   disconnect (disconnect this) = disconnect this \<and>
   open_clients (disconnect (run h all calls)) = [] \<and>
   open_listeners (disconnect (run h all calls)) = [] \<and>
   (\<not> isConnected (run h all calls) \<longrightarrow>
      disconnect (run h all calls) = run h all calls)"
proof -
  have "disconnect (disconnect this) = disconnect this"
    by (simp add: disconnect_def [of "disconnect this"] disconnect_fields Let_def)
  moreover have "\<not> isConnected (run h all calls) \<longrightarrow>
                   disconnect (run h all calls) = run h all calls"
  proof
    assume "\<not> isConnected (run h all calls)"
    then have "client (run h all calls) = None"
      by (cases "client (run h all calls)") (simp_all add: isConnected_def)
    then show "disconnect (run h all calls) = run h all calls"
      by (rule disconnect_noop [OF session_inv_run])
  qed
  ultimately show ?thesis
    using disconnect_closes [OF session_inv_run, of h all calls]
    by (simp add: disconnect_fields isConnected_def connectionInfo_def)
qed

theorem disconnect_clears_witness:
  "\<not> isConnected (run demo_host demo_store
       [Connect ''10.0.0.1'' None None, Receive (1000, ''/a'', [1 :: nat]), Disconnect]) \<and>
   disconnect (run demo_host demo_store
       [Connect ''10.0.0.1'' None None, Receive (1000, ''/a'', [1 :: nat]), Disconnect]) =
     run demo_host demo_store
       [Connect ''10.0.0.1'' None None, Receive (1000, ''/a'', [1 :: nat]), Disconnect] \<and>
   responseBuffer (run demo_host demo_store
       [Connect ''10.0.0.1'' None None, Receive (1000, ''/a'', [1 :: nat]), Disconnect]) ''/a'' = None"
proof -
  let ?cs = "[Connect ''10.0.0.1'' None None, Receive (1000, ''/a'', [1 :: nat]), Disconnect]"
  have a: "\<not> isConnected (run demo_host demo_store ?cs)"
    by (simp add: run_def isConnected_def disconnect_fields)
  have b: "responseBuffer (run demo_host demo_store ?cs) ''/a'' = None"
    by (simp add: run_def disconnect_fields)
  show ?thesis
    using a b disconnect_clears [of _ demo_host demo_store ?cs] by blast
qed

text \<open>
  C9. \<open>isDangerous\<close> holds for the names \<open>enRebootConsole\<close> and
  \<open>enResetGlobalsToDefault\<close> and for no other string, whatever the state of the
  client, which it neither reads nor changes.
\<close>

theorem isDangerous_iff:
  "isDangerous this name \<longleftrightarrow>
     name = ''enRebootConsole'' \<or> name = ''enResetGlobalsToDefault''"
  by (auto simp: isDangerous_def DANGEROUS_ENDPOINTS_def)

theorem isDangerous_iff_witness:
  "isDangerous (midasClient :: nat MidasOscClient) ''enRebootConsole'' \<and>
   isDangerous (connect (midasClient :: nat MidasOscClient) ''10.0.0.1'' None None)
     ''enResetGlobalsToDefault'' \<and>
   \<not> isDangerous (midasClient :: nat MidasOscClient) ''enFader'' \<and>
   \<not> isDangerous (midasClient :: nat MidasOscClient) ''enrebootconsole''"
  using isDangerous_iff [of "midasClient :: nat MidasOscClient" "''enRebootConsole''"]
    isDangerous_iff [of "connect (midasClient :: nat MidasOscClient) ''10.0.0.1'' None None"
      "''enResetGlobalsToDefault''"]
    isDangerous_iff [of "midasClient :: nat MidasOscClient" "''enFader''"]
    isDangerous_iff [of "midasClient :: nat MidasOscClient" "''enrebootconsole''"]
  by simp

subsection \<open>Claims about setValue\<close>

lemma buildOscPath_defined:
  "getEndpointInfo h all grp ep = Inr (Spec sp) \<Longrightarrow>
   \<exists>path. buildOscPath h all grp ep index = Inr (Some path)"
  by (simp add: buildOscPath_Some)

text \<open>
  Away from the inherited names \<open>setValue\<close> throws exactly as the specification
  lists: where neither the group nor the endpoint is a name that plain objects
  inherit, the four failures and no other.
\<close>

lemma setValue_failure_own_keys:
  assumes "inherited h grp = Absent" and "inherited h ep = Absent"
  shows "setValue h all this grp ep val index = Inl err \<longleftrightarrow>
           expected_failure all this grp ep val = Some err"
proof (cases "client this")
  case None
  then show ?thesis
    by (auto simp: setValue_def expected_failure_def isConnected_def)
next
  case (Some c)
  show ?thesis
  proof (cases "in_catalog all grp ep")
    case None
    then have "getEndpointInfo h all grp ep = Inr Null"
      using assms by (rule getEndpointInfo_plain)
    then show ?thesis
      using Some None by (auto simp: setValue_def expected_failure_def isConnected_def)
  next
    case (Some sp)
    then have g: "getEndpointInfo h all grp ep = Inr (Spec sp)"
      by (rule getEndpointInfo_in_catalog)
    obtain path where p: "buildOscPath h all grp ep index = Inr (Some path)"
      using buildOscPath_defined [OF g] by blast
    show ?thesis
    proof (cases "argumentType sp")
      case None
      then show ?thesis
        using Some g \<open>client this = Some c\<close>
        by (auto simp: setValue_def expected_failure_def isConnected_def)
    next
      case (Some argType)
      then show ?thesis
        using p g \<open>in_catalog all grp ep = Some sp\<close> \<open>client this = Some c\<close>
        by (cases argType; cases val)
           (auto simp: setValue_def expected_failure_def isConnected_def)
    qed
  qed
qed

lemma setValue_string:
  assumes "client this = Some c" and "getEndpointInfo h all grp ep = Inr (Spec sp)"
    and "argumentType sp = Some ArgString" and "buildOscPath h all grp ep index = Inr (Some path)"
  shows "setValue h all this grp ep val index =
           Inr (send_msg this \<lparr>msg_address = path, msg_args = [ArgS (String_of (number_toString h) val)]\<rparr>)"
  using assms by (simp add: setValue_def)

lemma clamp_max_min: "lo \<le> hi \<Longrightarrow> max lo (min hi x) = clamp lo hi x"
  by (auto simp: clamp_def max_def min_def)

lemma setValue_float:
  assumes "client this = Some c" and "getEndpointInfo h all grp ep = Inr (Spec sp)"
    and "argumentType sp = Some ArgFloat" and "buildOscPath h all grp ep index = Inr (Some path)"
  shows "setValue h all this grp ep (NumberV (Finite x)) index =
           Inr (send_msg this
             \<lparr>msg_address = path,
              msg_args = [ArgF (Finite (if type sp = enPPCFaderMessage
                                         then clamp (1 / 10000000) (9999999 / 10000000) x
                                         else clamp 0 1 x))]\<rparr>)"
proof -
  have "max (1 / 10000000) (min (9999999 / 10000000) x) =
          clamp (1 / 10000000) (9999999 / 10000000) x"
    by (rule clamp_max_min) simp
  moreover have "max 0 (min 1 x) = clamp 0 1 x"
    by (rule clamp_max_min) simp
  ultimately show ?thesis
    using assms by (simp add: setValue_def)
qed

lemma setValue_integer:
  assumes "client this = Some c" and "getEndpointInfo h all grp ep = Inr (Spec sp)"
    and "argumentType sp = Some ArgInteger" and "buildOscPath h all grp ep index = Inr (Some path)"
  shows "setValue h all this grp ep (NumberV (Finite x)) index =
           Inr (send_msg this
             \<lparr>msg_address = path, msg_args = [ArgI (Finite (of_int (round x)))]\<rparr>)"
  using assms by (simp add: setValue_def round_def)

lemma clamp_range: "a \<le> b \<Longrightarrow> clamp a b x \<in> {a..b}"
  by (simp add: clamp_def)

lemma clamp_inside: "x \<in> {a..b} \<Longrightarrow> clamp a b x = x"
  by (auto simp: clamp_def)

lemma print_integer_examples:
  "print_integer (Finite 2) = ''2''" "print_integer (Finite 7) = ''7''"
  "print_integer (Finite 12) = ''12''"
  by (simp_all add: print_integer_def decimal.simps digit_char_def)

lemma demo_host_toString: "number_toString demo_host = print_integer"
  by (simp add: demo_host_def)

lemma demo_specs:
  "getEndpointInfo demo_host demo_store ''VirtualMicInputs'' ''enFader'' =
     Inr (Spec \<lparr>multiPath = True, type = enPPCFaderMessage, argumentType = Some ArgFloat,
                 description = ''Fader level'', isAbsolute = None\<rparr>)"
  "getEndpointInfo demo_host demo_store ''VirtualMicInputs'' ''enPan'' =
     Inr (Spec \<lparr>multiPath = True, type = enPPCRotaryMessage, argumentType = Some ArgFloat,
                 description = ''Pan'', isAbsolute = None\<rparr>)"
  "getEndpointInfo demo_host demo_store ''VirtualMicInputs'' ''enMute'' =
     Inr (Spec \<lparr>multiPath = True, type = enPPCSwitchMessage, argumentType = Some ArgInteger,
                 description = ''Mute'', isAbsolute = Some True\<rparr>)"
  "getEndpointInfo demo_host demo_store ''Globals'' ''enName'' =
     Inr (Spec \<lparr>multiPath = False, type = enPPCStringMessage, argumentType = Some ArgString,
                 description = ''Console name'', isAbsolute = None\<rparr>)"
  "getEndpointInfo demo_host demo_store ''Globals'' ''enRebootConsole'' =
     Inr (Spec \<lparr>multiPath = False, type = enPPCOtherMessage, argumentType = Some ArgInteger,
                 description = ''Reboot'', isAbsolute = None\<rparr>)"
  by (simp_all add: getEndpointInfo_in_catalog in_catalog_def demo_store_def)

lemma demo_paths:
  "buildOscPath demo_host demo_store ''VirtualMicInputs'' ''enFader'' (Some (Finite 2)) =
     Inr (Some ''/enPPCFaderMessage/VirtualMicInputs/enFader/2'')"
  "buildOscPath demo_host demo_store ''VirtualMicInputs'' ''enPan'' (Some (Finite 2)) =
     Inr (Some ''/enPPCRotaryMessage/VirtualMicInputs/enPan/2'')"
  "buildOscPath demo_host demo_store ''VirtualMicInputs'' ''enMute'' (Some (Finite 2)) =
     Inr (Some ''/enPPCSwitchMessage/VirtualMicInputs/enMute/2'')"
  "buildOscPath demo_host demo_store ''Globals'' ''enName'' None =
     Inr (Some ''/enPPCStringMessage/Globals/enName'')"
  "buildOscPath demo_host demo_store ''Globals'' ''enRebootConsole'' None =
     Inr (Some ''/enPPCOtherMessage/Globals/enRebootConsole'')"
  by (simp_all add: buildOscPath_Some demo_specs demo_host_toString print_integer_examples)

text \<open>
  C5 fails on the code. On a connected client the pair \<open>VirtualMicInputs\<close>,
  \<open>constructor\<close> is not in the catalog, so \<open>setValue\<close> should throw the invalid
  endpoint error. But \<open>getEndpointInfo\<close> returns the function that the group
  object inherits under that name; it is truthy, its \<open>argumentType\<close> is
  \<open>undefined\<close> and not \<open>null\<close>, no \<open>case\<close> of the \<open>switch\<close> applies, and \<open>setValue\<close>
  sends a message without an argument to \<open>/undefined/VirtualMicInputs/constructor\<close>.
\<close>

theorem setValue_inherited_name:
  "expected_failure demo_store
     (connect (midasClient :: nat MidasOscClient) ''10.0.0.1'' None None)
     ''VirtualMicInputs'' ''constructor'' (NumberV (Finite 1)) =
       Some (InvalidEndpoint ''VirtualMicInputs'' ''constructor'') \<and>
   setValue demo_host demo_store
     (connect (midasClient :: nat MidasOscClient) ''10.0.0.1'' None None)
     ''VirtualMicInputs'' ''constructor'' (NumberV (Finite 1)) None =
       Inr (send_msg (connect (midasClient :: nat MidasOscClient) ''10.0.0.1'' None None)
              \<lparr>msg_address = ''/undefined/VirtualMicInputs/constructor'', msg_args = []\<rparr>)"
proof -
  let ?on = "connect (midasClient :: nat MidasOscClient) ''10.0.0.1'' None None"
  have on: "client ?on = Some (''10.0.0.1'', 10023)"
    by (simp add: connect_fields session_inv_init)
  have a: "in_catalog demo_store ''VirtualMicInputs'' ''constructor'' = None"
    by code_simp
  have b: "getEndpointInfo demo_host demo_store ''VirtualMicInputs'' ''constructor'' =
             Inr (Foreign True)"
    by code_simp
  have c: "buildOscPath demo_host demo_store ''VirtualMicInputs'' ''constructor'' None =
             Inr (Some ''/undefined/VirtualMicInputs/constructor'')"
    using b by (simp add: buildOscPath_def)
  show ?thesis
    using on a b c by (simp add: expected_failure_def isConnected_def setValue_def)
qed

text \<open>
  C3. On a connected client, for an endpoint of the catalog and a finite number
  \<open>x\<close>: a float endpoint of the fader kind is sent \<open>x\<close> clamped to the interval from
  \<open>0.0000001\<close> to \<open>0.9999999\<close>, so \<open>1\<close> is sent as a value below \<open>1\<close> and \<open>-5\<close> as
  \<open>0.0000001\<close>; a float endpoint of any other kind is sent \<open>x\<close> clamped to the
  interval from \<open>0\<close> to \<open>1\<close>; an integer endpoint is sent the integer nearest to
  \<open>x\<close>.
\<close>

theorem setValue_clamps_and_rounds:
  assumes "isConnected this" and "getEndpointInfo h all grp ep = Inr (Spec sp)"
  shows "\<exists>path. buildOscPath h all grp ep index = Inr (Some path) \<and>
     (argumentType sp = Some ArgFloat \<and> type sp = enPPCFaderMessage \<longrightarrow>
        setValue h all this grp ep (NumberV (Finite x)) index =
          Inr (send_msg this
                 \<lparr>msg_address = path,
                  msg_args = [ArgF (Finite (clamp (1 / 10000000) (9999999 / 10000000) x))]\<rparr>)) \<and>
     (argumentType sp = Some ArgFloat \<and> type sp \<noteq> enPPCFaderMessage \<longrightarrow>
        setValue h all this grp ep (NumberV (Finite x)) index =
          Inr (send_msg this \<lparr>msg_address = path, msg_args = [ArgF (Finite (clamp 0 1 x))]\<rparr>)) \<and>
     (argumentType sp = Some ArgInteger \<longrightarrow>
        setValue h all this grp ep (NumberV (Finite x)) index =
          Inr (send_msg this
                 \<lparr>msg_address = path, msg_args = [ArgI (Finite (of_int (round x)))]\<rparr>)) \<and>
     1 / 10000000 \<le> clamp (1 / 10000000) (9999999 / 10000000) x \<and>
     clamp (1 / 10000000) (9999999 / 10000000) x \<le> 9999999 / 10000000 \<and>
     clamp (1 / 10000000) (9999999 / 10000000) 1 < 1 \<and>
     clamp (1 / 10000000) (9999999 / 10000000) (- 5) = 1 / 10000000 \<and>
     0 \<le> clamp 0 1 x \<and> clamp 0 1 x \<le> 1 \<and>
     \<bar>of_int (round x) - x\<bar> \<le> 1 / 2"
proof -
  obtain c where c: "client this = Some c"
    using assms(1) by (auto simp: isConnected_def)
  obtain path where p: "buildOscPath h all grp ep index = Inr (Some path)"
    using buildOscPath_defined [OF assms(2)] by blast
  have f: "argumentType sp = Some ArgFloat \<and> type sp = enPPCFaderMessage \<longrightarrow>
        setValue h all this grp ep (NumberV (Finite x)) index =
          Inr (send_msg this
                 \<lparr>msg_address = path,
                  msg_args = [ArgF (Finite (clamp (1 / 10000000) (9999999 / 10000000) x))]\<rparr>)"
    using setValue_float [OF c assms(2) _ p, of x] by simp
  have r: "argumentType sp = Some ArgFloat \<and> type sp \<noteq> enPPCFaderMessage \<longrightarrow>
        setValue h all this grp ep (NumberV (Finite x)) index =
          Inr (send_msg this \<lparr>msg_address = path, msg_args = [ArgF (Finite (clamp 0 1 x))]\<rparr>)"
    using setValue_float [OF c assms(2) _ p, of x] by simp
  have i: "argumentType sp = Some ArgInteger \<longrightarrow>
        setValue h all this grp ep (NumberV (Finite x)) index =
          Inr (send_msg this
                 \<lparr>msg_address = path, msg_args = [ArgI (Finite (of_int (round x)))]\<rparr>)"
    using setValue_integer [OF c assms(2) _ p, of x] by simp
  have b1: "1 / 10000000 \<le> clamp (1 / 10000000) (9999999 / 10000000) x \<and>
            clamp (1 / 10000000) (9999999 / 10000000) x \<le> 9999999 / 10000000"
    using clamp_range [of "1 / 10000000" "9999999 / 10000000" x] by simp
  have b2: "0 \<le> clamp 0 1 x \<and> clamp 0 1 x \<le> 1"
    using clamp_range [of 0 1 x] by simp
  have e: "clamp (1 / 10000000) (9999999 / 10000000) 1 < 1 \<and>
           clamp (1 / 10000000) (9999999 / 10000000) (- 5) = 1 / 10000000"
    by (simp add: clamp_def)
  have n: "\<bar>of_int (round x) - x\<bar> \<le> 1 / 2"
    by (rule of_int_round_abs_le)
  show ?thesis
    using p f r i b1 b2 e n by blast
qed

theorem setValue_clamps_and_rounds_witness:
  "isConnected (connect (midasClient :: nat MidasOscClient) ''10.0.0.1'' None None) \<and>
   setValue demo_host demo_store (connect (midasClient :: nat MidasOscClient) ''10.0.0.1'' None None)
     ''VirtualMicInputs'' ''enFader'' (NumberV (Finite 1)) (Some (Finite 2)) =
       Inr (send_msg (connect (midasClient :: nat MidasOscClient) ''10.0.0.1'' None None)
              \<lparr>msg_address = ''/enPPCFaderMessage/VirtualMicInputs/enFader/2'',
               msg_args = [ArgF (Finite (9999999 / 10000000))]\<rparr>) \<and>
   setValue demo_host demo_store (connect (midasClient :: nat MidasOscClient) ''10.0.0.1'' None None)
     ''VirtualMicInputs'' ''enFader'' (NumberV (Finite (- 5))) (Some (Finite 2)) =
       Inr (send_msg (connect (midasClient :: nat MidasOscClient) ''10.0.0.1'' None None)
              \<lparr>msg_address = ''/enPPCFaderMessage/VirtualMicInputs/enFader/2'',
               msg_args = [ArgF (Finite (1 / 10000000))]\<rparr>) \<and>
   setValue demo_host demo_store (connect (midasClient :: nat MidasOscClient) ''10.0.0.1'' None None)
     ''VirtualMicInputs'' ''enPan'' (NumberV (Finite 3)) (Some (Finite 2)) =
       Inr (send_msg (connect (midasClient :: nat MidasOscClient) ''10.0.0.1'' None None)
              \<lparr>msg_address = ''/enPPCRotaryMessage/VirtualMicInputs/enPan/2'',
               msg_args = [ArgF (Finite 1)]\<rparr>) \<and>
   setValue demo_host demo_store (connect (midasClient :: nat MidasOscClient) ''10.0.0.1'' None None)
     ''VirtualMicInputs'' ''enMute'' (NumberV (Finite (37 / 10))) (Some (Finite 2)) =
       Inr (send_msg (connect (midasClient :: nat MidasOscClient) ''10.0.0.1'' None None)
              \<lparr>msg_address = ''/enPPCSwitchMessage/VirtualMicInputs/enMute/2'',
               msg_args = [ArgI (Finite 4)]\<rparr>)"
proof -
  let ?on = "connect (midasClient :: nat MidasOscClient) ''10.0.0.1'' None None"
  have on: "isConnected ?on"
    by (simp add: isConnected_def connect_fields session_inv_init)
  have rd: "round (37 / 10 :: real) = 4"
    unfolding round_def by (rule floor_unique) simp_all
  note th = setValue_clamps_and_rounds [OF on, where all = demo_store and h = demo_host
              and index = "Some (Finite 2)"]
  have "setValue demo_host demo_store ?on ''VirtualMicInputs'' ''enFader'' (NumberV (Finite 1)) (Some (Finite 2)) =
          Inr (send_msg ?on
                 \<lparr>msg_address = ''/enPPCFaderMessage/VirtualMicInputs/enFader/2'',
                  msg_args = [ArgF (Finite (9999999 / 10000000))]\<rparr>)"
    using th [OF demo_specs(1), of 1] by (simp add: demo_paths clamp_def)
  moreover have "setValue demo_host demo_store ?on ''VirtualMicInputs'' ''enFader''
          (NumberV (Finite (- 5))) (Some (Finite 2)) =
          Inr (send_msg ?on
                 \<lparr>msg_address = ''/enPPCFaderMessage/VirtualMicInputs/enFader/2'',
                  msg_args = [ArgF (Finite (1 / 10000000))]\<rparr>)"
    using th [OF demo_specs(1), of "- 5"] by (simp add: demo_paths clamp_def)
  moreover have "setValue demo_host demo_store ?on ''VirtualMicInputs'' ''enPan'' (NumberV (Finite 3)) (Some (Finite 2)) =
          Inr (send_msg ?on
                 \<lparr>msg_address = ''/enPPCRotaryMessage/VirtualMicInputs/enPan/2'',
                  msg_args = [ArgF (Finite 1)]\<rparr>)"
    using th [OF demo_specs(2), of 3] by (simp add: demo_paths clamp_def)
  moreover have "setValue demo_host demo_store ?on ''VirtualMicInputs'' ''enMute''
          (NumberV (Finite (37 / 10))) (Some (Finite 2)) =
          Inr (send_msg ?on
                 \<lparr>msg_address = ''/enPPCSwitchMessage/VirtualMicInputs/enMute/2'',
                  msg_args = [ArgI (Finite 4)]\<rparr>)"
    using th [OF demo_specs(3), of "37 / 10"] by (simp add: demo_paths rd)
  ultimately show ?thesis
    using on by blast
qed

subsection \<open>Claims about getValue\<close>

lemma sent_receive [simp]: "sent (receive this m) = sent this"
  by (cases m) (simp add: receive_def on_message_def)

lemma sent_deliver [simp]: "sent (deliver ms this) = sent this"
  unfolding deliver_def by (induction ms arbitrary: this) simp_all

lemma sent_poll [simp]: "sent (snd (poll path t d this tks)) = sent this"
  by (induction tks arbitrary: this) (simp_all split: option.splits)













end
